theory Spec2Isabelle
  imports Complex_Main
begin

section \<open>Python values and built-ins used by \<open>SNSoap.run_query\<close>\<close>

text \<open>
  The exceptions the generator body can raise. \<open>AssertionError\<close> comes from the
  \<open>assert\<close> on the page size, \<open>TypeError\<close> from \<open>**None\<close>, from \<open>int(None)\<close> and
  from joining a list that holds \<open>None\<close>, \<open>ValueError\<close> and \<open>OverflowError\<close> from
  \<open>int(...)\<close>, \<open>IndexError\<close> from \<open>response['sys_id'][0]\<close>. Whatever zeep or
  requests raise is \<open>RemoteError\<close> with the library's message.
\<close>

datatype exn =
  AssertionError | TypeError | ValueError | OverflowError | IndexError | RemoteError string

text \<open>Values of a \<open>query_parms\<close> dictionary, e.g. \<open>{'active': 'false', 'state': 7}\<close>.\<close>

datatype py_val = PyStr string | PyInt int

type_synonym query_parms = "(string \<times> py_val) list"

text \<open>
  A sys_id as an element of a Python collection: \<open>Some s\<close> is the string \<open>s\<close>,
  \<open>None\<close> is Python's \<open>None\<close>.
\<close>

type_synonym sys_id = "string option"

subsection \<open>\<open>int(s)\<close> on an ASCII string\<close>

definition is_space :: "char \<Rightarrow> bool" where
  "is_space c = (c \<in> set [CHR '' '', CHR 0x09, CHR 0x0A, CHR 0x0B, CHR 0x0C, CHR 0x0D])"

definition is_digit :: "char \<Rightarrow> bool" where
  "is_digit c = (48 \<le> (of_char c :: nat) \<and> (of_char c :: nat) \<le> 57)"

definition digit_val :: "char \<Rightarrow> int" where
  "digit_val c = int (of_char c) - 48"

definition strip :: "string \<Rightarrow> string" where
  "strip s = rev (dropWhile is_space (rev (dropWhile is_space s)))"

text \<open>
  The digits of a decimal literal, most significant first: a digit, then digits each
  optionally preceded by one underscore. \<open>digits acc s\<close> has read the value \<open>acc\<close>
  and stands right after a digit.
\<close>

fun digits :: "int \<Rightarrow> string \<Rightarrow> int option" where
  "digits acc [] = Some acc"
| "digits acc [c] = (if is_digit c then Some (10 * acc + digit_val c) else None)"
| "digits acc (c # d # cs) =
     (if is_digit c then digits (10 * acc + digit_val c) (d # cs)
      else if c = CHR ''_'' \<and> is_digit d then digits (10 * acc + digit_val d) cs
      else None)"

definition unsigned :: "string \<Rightarrow> int option" where
  "unsigned s = (case s of [] \<Rightarrow> None
                 | c # cs \<Rightarrow> if is_digit c then digits (digit_val c) cs else None)"

definition py_int :: "string \<Rightarrow> exn + int" where
  "py_int s =
     (let t = strip s;
          r = (case t of
                 [] \<Rightarrow> None
               | c # cs \<Rightarrow>
                   if c = CHR ''-'' then map_option uminus (unsigned cs)
                   else if c = CHR ''+'' then unsigned cs
                   else unsigned t)
      in case r of None \<Rightarrow> Inl ValueError | Some n \<Rightarrow> Inr n)"

subsection \<open>\<open>int(page_size)\<close>\<close>

text \<open>
  What a caller can pass as \<open>page_size\<close>: an \<open>int\<close> (a \<open>bool\<close> is one), a \<open>float\<close>
  (a finite one by its value, an infinity or a NaN), a \<open>str\<close> or \<open>None\<close>.
\<close>

datatype py_arg = ArgInt int | ArgFloat real | ArgInf | ArgNaN | ArgStr string | ArgNone

text \<open>\<open>int\<close> of a finite float drops the fraction, towards zero.\<close>

definition trunc :: "real \<Rightarrow> int" where
  "trunc x = (if 0 \<le> x then \<lfloor>x\<rfloor> else \<lceil>x\<rceil>)"

fun int_of_arg :: "py_arg \<Rightarrow> exn + int" where
  "int_of_arg (ArgInt n) = Inr n"
| "int_of_arg (ArgFloat x) = Inr (trunc x)"
| "int_of_arg ArgInf = Inl OverflowError"
| "int_of_arg ArgNaN = Inl ValueError"
| "int_of_arg (ArgStr s) = py_int s"
| "int_of_arg ArgNone = Inl TypeError"

subsection \<open>\<open>s.split(',')\<close>, \<open>','.join(xs)\<close> and slicing\<close>

text \<open>\<open>split_acc cur s\<close>: \<open>cur\<close> is the current field, reversed.\<close>

fun split_acc :: "string \<Rightarrow> string \<Rightarrow> string list" where
  "split_acc cur [] = [rev cur]"
| "split_acc cur (c # cs) =
     (if c = CHR '','' then rev cur # split_acc [] cs else split_acc (c # cur) cs)"

definition py_split :: "string \<Rightarrow> string list" where
  "py_split s = split_acc [] s"

fun join_comma :: "string list \<Rightarrow> string" where
  "join_comma [] = []"
| "join_comma [x] = x"
| "join_comma (x # y # ys) = x @ '','' @ join_comma (y # ys)"

text \<open>\<open>','.join(chunk)\<close> raises \<open>TypeError\<close> when an item is not a string.\<close>

definition py_join :: "sys_id list \<Rightarrow> exn + string" where
  "py_join chunk = (if None \<in> set chunk then Inl TypeError else Inr (join_comma (map the chunk)))"

text \<open>
  An index of a slice: a negative one counts from the end, and both ends are clamped to
  the list.
\<close>

definition slice_index :: "int \<Rightarrow> nat \<Rightarrow> nat" where
  "slice_index i n = (if i < 0 then nat (max 0 (int n + i)) else min (nat i) n)"

definition py_slice :: "'a list \<Rightarrow> int \<Rightarrow> int \<Rightarrow> 'a list" where
  "py_slice xs a b =
     (let lo = slice_index a (length xs); hi = slice_index b (length xs)
      in take (hi - lo) (drop lo xs))"

section \<open>The \<open>SNSoap\<close> object and its surroundings\<close>

record session =
  auth :: "string \<times> string"

record transport =
  transport_session :: session

record SNSoap =
  "instance" :: string
  session :: session
  transport :: transport

definition SNSoap_init :: "string \<Rightarrow> string \<Rightarrow> string \<Rightarrow> SNSoap" where
  "SNSoap_init inst username password =
     (let s = \<lparr>auth = (username, password)\<rparr>
      in \<lparr>instance = inst, session = s, transport = \<lparr>transport_session = s\<rparr>\<rparr>)"

text \<open>What \<open>zeep.CachingClient(wsdl_url, transport=...)\<close> is built from.\<close>

record client =
  wsdl_url :: string
  client_transport :: transport

text \<open>A call of a SOAP operation through \<open>client.service\<close>.\<close>

datatype call = GetKeys client query_parms | GetRecords client string

text \<open>The response of \<open>getKeys\<close>: \<open>response['count']\<close> and \<open>response['sys_id']\<close>.\<close>

record keys_response =
  count :: string
  sys_id :: "string list"

text \<open>
  Everything outside the repository: the iteration order of a Python set built from a
  list (\<open>set_iter\<close>), whether zeep can build the client for a WSDL (\<open>make_client\<close>
  gives the error message when it cannot), and the two remote operations, whose answers
  may depend on the calls made so far.
\<close>

record 'page env =
  set_iter :: "sys_id list \<Rightarrow> sys_id list"
  make_client :: "client \<Rightarrow> string option"
  getKeys_op :: "call list \<Rightarrow> client \<Rightarrow> query_parms \<Rightarrow> string + keys_response"
  getRecords_op :: "call list \<Rightarrow> client \<Rightarrow> string \<Rightarrow> string + 'page"

text \<open>
  The state a run can touch: the \<open>SNSoap\<close> object, the clients built by \<open>_client\<close>
  and the remote operations called, oldest first.
\<close>

record world =
  pager :: SNSoap
  clients :: "client list"
  calls :: "call list"

definition client_of :: "SNSoap \<Rightarrow> string \<Rightarrow> client" where
  "client_of self tablename =
     \<lparr>wsdl_url = ''https://'' @ instance self @ ''.service-now.com/'' @ tablename @ ''.do?WSDL'',
      client_transport = transport self\<rparr>"

section \<open>The generator \<open>run_query\<close>\<close>

datatype 'page outcome = Yield 'page | StopIteration | Raise exn

text \<open>
  A generator object of \<open>run_query\<close>: created and not yet started (it holds the
  arguments \<open>table\<close>, \<open>query_parms\<close>, \<open>sys_ids\<close>, \<open>page_size\<close>), suspended at the
  \<open>yield\<close> (the live variables are \<open>client\<close>, \<open>sys_ids\<close>, \<open>start\<close> and
  \<open>page_size\<close>), or finished.
\<close>

datatype gen =
    Created string "query_parms option" "sys_id list option" py_arg
  | Suspended client "sys_id list" int int
  | Finished

text \<open>Calling a generator function runs none of its body.\<close>

definition run_query ::
  "string \<Rightarrow> query_parms option \<Rightarrow> sys_id list option \<Rightarrow> py_arg \<Rightarrow> gen" where
  "run_query table query_parms sys_ids page_size = Created table query_parms sys_ids page_size"

text \<open>Lines 68 to 83: the list of sys_ids to page through.\<close>

definition resolve_sys_ids ::
  "'page env \<Rightarrow> world \<Rightarrow> client \<Rightarrow> query_parms option \<Rightarrow> sys_id list option
     \<Rightarrow> world \<times> (exn + sys_id list)" where
  "resolve_sys_ids env w c query_parms sys_ids =
     (case sys_ids of
        None \<Rightarrow>
          (case query_parms of
             None \<Rightarrow> (w, Inl TypeError)
           | Some qp \<Rightarrow>
               (let w' = w\<lparr>calls := calls w @ [GetKeys c qp]\<rparr>
                in case getKeys_op env (calls w) c qp of
                     Inl msg \<Rightarrow> (w', Inl (RemoteError msg))
                   | Inr response \<Rightarrow>
                       (case py_int (count response) of
                          Inl e \<Rightarrow> (w', Inl e)
                        | Inr n \<Rightarrow>
                            if n = 0 then (w', Inr [])
                            else (case sys_id response of
                                    [] \<Rightarrow> (w', Inl IndexError)
                                  | s # _ \<Rightarrow> (w', Inr (map Some (py_split s)))))))
      | Some xs \<Rightarrow> (w, Inr (filter (\<lambda>x. x \<noteq> None) (set_iter env xs))))"

text \<open>
  Lines 87 to 90: the loop test at \<open>start\<close> and, when it holds, the body up to the
  \<open>yield\<close>.
\<close>

definition paging ::
  "'page env \<Rightarrow> world \<Rightarrow> client \<Rightarrow> sys_id list \<Rightarrow> int \<Rightarrow> int \<Rightarrow> world \<times> gen \<times> 'page outcome" where
  "paging env w c sys_ids start page_size =
     (if start < int (length sys_ids) then
        (case py_join (py_slice sys_ids start (start + page_size)) of
           Inl e \<Rightarrow> (w, Finished, Raise e)
         | Inr s \<Rightarrow>
             (let query = ''sys_idIN'' @ s;
                  w' = w\<lparr>calls := calls w @ [GetRecords c query]\<rparr>
              in case getRecords_op env (calls w) c query of
                   Inl msg \<Rightarrow> (w', Finished, Raise (RemoteError msg))
                 | Inr page \<Rightarrow> (w', Suspended c sys_ids start page_size, Yield page)))
      else (w, Finished, StopIteration))"

text \<open>
  One \<open>next()\<close> on the generator. A fresh generator runs from the top to the first
  \<open>yield\<close>; a suspended one resumes after the \<open>yield\<close> with \<open>start += page_size\<close>.
  Line 64 converts the page size with \<open>int\<close> and may raise; the \<open>assert\<close> of line 65
  is on the converted value, which is the page size from then on. The \<open>assert\<close> is
  executed (the interpreter does not run with \<open>-O\<close>). A generator that has raised is
  finished. When zeep cannot build the client no client is recorded.
\<close>

fun gen_next :: "'page env \<Rightarrow> world \<Rightarrow> gen \<Rightarrow> world \<times> gen \<times> 'page outcome" where
  "gen_next env w (Created table query_parms sys_ids page_size) =
     (case int_of_arg page_size of
        Inl e \<Rightarrow> (w, Finished, Raise e)
      | Inr n \<Rightarrow>
          if \<not> (1 \<le> n \<and> n \<le> 250) then (w, Finished, Raise AssertionError)
          else
            (let c = client_of (pager w) table;
                 w1 = w\<lparr>clients := clients w @ [c]\<rparr>
             in case make_client env c of
                  Some msg \<Rightarrow> (w, Finished, Raise (RemoteError msg))
                | None \<Rightarrow>
                    (case resolve_sys_ids env w1 c query_parms sys_ids of
                       (w2, Inl e) \<Rightarrow> (w2, Finished, Raise e)
                     | (w2, Inr ids) \<Rightarrow> paging env w2 c ids 0 n)))"
| "gen_next env w (Suspended c sys_ids start page_size) =
     paging env w c sys_ids (start + page_size) page_size"
| "gen_next env w Finished = (w, Finished, StopIteration)"

section \<open>Callers\<close>

text \<open>
  \<open>for page in sn.run_query(...)\<close>, as in the class's docstring: the pages yielded, and
  the exception that ended the loop if one did. The result is \<open>None\<close> when the loop
  never ends.
\<close>

partial_function (option) drain ::
  "'page env \<Rightarrow> world \<Rightarrow> gen \<Rightarrow> (world \<times> 'page list \<times> exn option) option" where
  "drain env w g =
     (case gen_next env w g of
        (w', g', Yield page) \<Rightarrow>
          Option.bind (drain env w' g') (\<lambda>(w'', pages, e). Some (w'', page # pages, e))
      | (w', g', StopIteration) \<Rightarrow> Some (w', [], None)
      | (w', g', Raise e) \<Rightarrow> Some (w', [], Some e))"

text \<open>
  A caller that calls \<open>next()\<close> at most \<open>k\<close> times and stops at the first call that
  does not yield a page.
\<close>

fun pull :: "nat \<Rightarrow> 'page env \<Rightarrow> world \<Rightarrow> gen \<Rightarrow> world \<times> gen \<times> 'page outcome list" where
  "pull 0 env w g = (w, g, [])"
| "pull (Suc k) env w g =
     (case gen_next env w g of
        (w', g', Yield page) \<Rightarrow>
          (case pull k env w' g' of (w'', g'', rs) \<Rightarrow> (w'', g'', Yield page # rs))
      | (w', g', r) \<Rightarrow> (w', g', [r]))"


section \<open>Consecutive chunks\<close>

text \<open>
  The specification's notion of partitioning a list into consecutive chunks of at most
  \<open>n\<close> items; the code's loop is compared with it below.
\<close>

function consecutive_chunks :: "nat \<Rightarrow> 'a list \<Rightarrow> 'a list list" where
  "consecutive_chunks n xs =
     (if n = 0 \<or> xs = [] then [] else take n xs # consecutive_chunks n (drop n xs))"
  by pat_completeness auto
termination
  by (relation "measure (\<lambda>(n, xs). length xs)") auto

declare consecutive_chunks.simps [simp del]

definition is_getRecords :: "call \<Rightarrow> bool" where
  "is_getRecords e = (case e of GetRecords _ _ \<Rightarrow> True | GetKeys _ _ \<Rightarrow> False)"

text \<open>The \<open>getRecords\<close> calls that fetch the given chunks, in order.\<close>

definition fetches :: "client \<Rightarrow> sys_id list list \<Rightarrow> call list" where
  "fetches c chunks = map (\<lambda>chunk. GetRecords c (''sys_idIN'' @ join_comma (map the chunk))) chunks"

text \<open>
  What the code relies on for \<open>list(set(sys_ids))\<close>: iterating a set gives each of its
  elements once.
\<close>

definition set_iteration :: "'page env \<Rightarrow> bool" where
  "set_iteration env = (\<forall>xs. distinct (set_iter env xs) \<and> set (set_iter env xs) = set xs)"

section \<open>A concrete instance and service\<close>

definition example_pager :: SNSoap where
  "example_pager = SNSoap_init ''dev'' ''admin'' ''secret''"

definition example_world :: world where
  "example_world = \<lparr>pager = example_pager, clients = [], calls = []\<rparr>"

definition example_client :: client where
  "example_client = client_of example_pager ''incident''"

text \<open>
  A service whose \<open>getKeys\<close> always answers \<open>r\<close> and whose \<open>getRecords\<close> answers with
  the query it was sent; sets iterate in the order of first occurrence.
\<close>

definition stub_env :: "keys_response \<Rightarrow> string env" where
  "stub_env r =
     \<lparr>set_iter = remdups, make_client = (\<lambda>c. None),
      getKeys_op = (\<lambda>h c qp. Inr r), getRecords_op = (\<lambda>h c q. Inr q)\<rparr>"

text \<open>The same service with \<open>getRecords\<close> out of order.\<close>

definition down_env :: "keys_response \<Rightarrow> string env" where
  "down_env r = (stub_env r)\<lparr>getRecords_op := (\<lambda>h c q. Inl ''503'')\<rparr>"

section \<open>Joined by commas\<close>

text \<open>
  The specification's words for the filter of a chunk, "joined by commas", written
  without recursion: the first identifier, then every further one with a comma before
  it. The code's \<open>','.join\<close> is compared with it below.
\<close>

definition comma_separated :: "string list \<Rightarrow> string" where
  "comma_separated xs =
     (case xs of [] \<Rightarrow> [] | x # rest \<Rightarrow> x @ concat (map (\<lambda>y. CHR '','' # y) rest))"

section \<open>Lemmas\<close>

lemma py_slice_nonneg:
  "0 \<le> a \<Longrightarrow> 0 \<le> n \<Longrightarrow> py_slice xs a (a + n) = take (nat n) (drop (nat a) xs)"
  by (auto simp: py_slice_def slice_index_def Let_def min_def nat_add_distrib)

lemma chunks_Nil: "consecutive_chunks n [] = []"
  by (simp add: consecutive_chunks.simps)

lemma chunks_step:
  "0 < n \<Longrightarrow> xs \<noteq> [] \<Longrightarrow> consecutive_chunks n xs = take n xs # consecutive_chunks n (drop n xs)"
  by (subst consecutive_chunks.simps) simp



lemma ceil_step: "0 < n \<Longrightarrow> 0 < (m::nat) \<Longrightarrow> (m + n - 1) div n = Suc ((m - 1) div n)"
proof -
  assume n: "0 < n" and m: "0 < m"
  from m have "m + n - 1 = (m - 1) + n" by linarith
  then have "(m + n - 1) div n = ((m - 1) + n) div n" by (rule arg_cong)
  also have "\<dots> = (m - 1) div n + 1" using n by (intro div_add_self2) simp
  finally show ?thesis by simp
qed

lemma ceil_drop: "0 < n \<Longrightarrow> 0 < (m::nat) \<Longrightarrow> ((m - n) + n - 1) div n = (m - 1) div n"
proof (cases "n \<le> m")
  case True
  then have "(m - n) + n = m" by linarith
  then show ?thesis by (simp only:)
next
  case False
  assume n: "0 < n" and m: "0 < m"
  from False have "m - n = 0" by linarith
  moreover from False m have "m - 1 < n" by linarith
  moreover from n have "n - 1 < n" by linarith
  ultimately show ?thesis by (simp only: div_less add_0)
qed

lemma length_chunks: "0 < n \<Longrightarrow> length (consecutive_chunks n xs) = (length xs + n - 1) div n"
proof (induction n xs rule: consecutive_chunks.induct)
  case (1 n xs)
  show ?case
  proof (cases "xs = []")
    case True
    with 1(2) show ?thesis by (simp add: chunks_Nil)
  next
    case False
    then have pos: "0 < length xs" by simp
    from 1(1) 1(2) False
    have ih: "length (consecutive_chunks n (drop n xs)) = (length (drop n xs) + n - 1) div n"
      by blast
    have "length (consecutive_chunks n xs) = Suc (length (consecutive_chunks n (drop n xs)))"
      by (simp add: chunks_step [OF 1(2) False])
    also have "\<dots> = Suc ((length xs - n + n - 1) div n)"
      by (simp only: ih length_drop)
    also have "\<dots> = Suc ((length xs - 1) div n)"
      by (simp only: ceil_drop [OF 1(2) pos])
    also have "\<dots> = (length xs + n - 1) div n"
      by (simp only: ceil_step [OF 1(2) pos])
    finally show ?thesis .
  qed
qed



lemma fetches_Nil: "fetches c [] = []"
  by (simp add: fetches_def)

lemma fetches_Cons:
  "fetches c (chunk # chunks) =
     GetRecords c (''sys_idIN'' @ join_comma (map the chunk)) # fetches c chunks"
  by (simp add: fetches_def)

lemma paging_stop:
  "\<not> start < int (length ids) \<Longrightarrow> paging env w c ids start ps = (w, Finished, StopIteration)"
  by (simp add: paging_def)

lemma no_None_chunk: "None \<notin> set ids \<Longrightarrow> None \<notin> set (take n (drop m ids))"
  by (meson in_set_dropD in_set_takeD)

lemma paging_fetch:
  assumes "0 \<le> start" and "1 \<le> ps" and "start < int (length ids)"
    and "None \<notin> set (take (nat ps) (drop (nat start) ids))"
    and "getRecords_op env (calls w) c
           (''sys_idIN'' @ join_comma (map the (take (nat ps) (drop (nat start) ids)))) = Inr p"
  shows "paging env w c ids start ps =
           (w\<lparr>calls := calls w @
                [GetRecords c (''sys_idIN'' @ join_comma (map the (take (nat ps) (drop (nat start) ids))))]\<rparr>,
            Suspended c ids start ps, Yield p)"
proof -
  from assms(1,2) have "py_slice ids start (start + ps) = take (nat ps) (drop (nat start) ids)"
    by (simp add: py_slice_nonneg)
  with assms(3,4,5) show ?thesis
    by (simp add: paging_def py_join_def Let_def)
qed

lemma chunks_at:
  assumes "0 \<le> st" and "1 \<le> ps" and "st < int (length ids)"
  shows "consecutive_chunks (nat ps) (drop (nat st) ids) =
           take (nat ps) (drop (nat st) ids) #
           consecutive_chunks (nat ps) (drop (nat (st + ps)) ids)"
proof -
  from assms have ne: "drop (nat st) ids \<noteq> []" and pos: "0 < nat ps" by simp_all
  from assms have "nat (st + ps) = nat ps + nat st" by linarith
  then have "drop (nat (st + ps)) ids = drop (nat ps) (drop (nat st) ids)" by simp
  with chunks_step [OF pos ne] show ?thesis by simp
qed

lemma drain_stop:
  "gen_next env w g = (w', g', StopIteration) \<Longrightarrow> drain env w g = Some (w', [], None)"
  by (subst drain.simps) simp

lemma drain_raise:
  "gen_next env w g = (w', g', Raise e) \<Longrightarrow> drain env w g = Some (w', [], Some e)"
  by (subst drain.simps) simp

lemma drain_yield:
  "gen_next env w g = (w', g', Yield p) \<Longrightarrow>
   drain env w g =
     Option.bind (drain env w' g') (\<lambda>(w'', pages, e). Some (w'', p # pages, e))"
  by (subst drain.simps) simp

lemma drain_suspended_ok:
  assumes ps: "1 \<le> ps" and nn: "None \<notin> set ids"
    and ok: "\<forall>h q. \<exists>p. getRecords_op env h c q = Inr p"
  shows "0 \<le> s + ps \<Longrightarrow>
         \<exists>w' pages. drain env w (Suspended c ids s ps) = Some (w', pages, None) \<and>
           pager w' = pager w \<and> clients w' = clients w \<and>
           calls w' = calls w @ fetches c (consecutive_chunks (nat ps) (drop (nat (s + ps)) ids)) \<and>
           length pages = length (consecutive_chunks (nat ps) (drop (nat (s + ps)) ids))"
proof (induction "length ids - nat (s + ps)" arbitrary: s w rule: less_induct)
  case less
  define st where "st = s + ps"
  from less.prems have st0: "0 \<le> st" by (simp add: st_def)
  have nxt: "gen_next env w (Suspended c ids s ps) = paging env w c ids st ps"
    by (simp add: st_def)
  show ?case
  proof (cases "st < int (length ids)")
    case False
    with st0 have empty: "drop (nat st) ids = []" by simp
    have "drain env w (Suspended c ids s ps) = Some (w, [], None)"
      by (rule drain_stop) (simp only: nxt paging_stop [OF False])
    with empty show ?thesis
      by (simp add: chunks_Nil fetches_Nil st_def [symmetric])
  next
    case True
    define chunk where "chunk = take (nat ps) (drop (nat st) ids)"
    define q where "q = ''sys_idIN'' @ join_comma (map the chunk)"
    define w1 where "w1 = w\<lparr>calls := calls w @ [GetRecords c q]\<rparr>"
    from ok obtain p where p: "getRecords_op env (calls w) c q = Inr p" by blast
    have nnc: "None \<notin> set chunk"
      unfolding chunk_def by (rule no_None_chunk [OF nn])
    have step: "paging env w c ids st ps = (w1, Suspended c ids st ps, Yield p)"
      using paging_fetch [OF st0 ps True nnc [unfolded chunk_def] p [unfolded q_def chunk_def]]
      by (simp add: w1_def q_def chunk_def)
    from True st0 ps have "length ids - nat (st + ps) < length ids - nat st" by linarith
    then have smaller: "length ids - nat (st + ps) < length ids - nat (s + ps)"
      by (simp add: st_def)
    from st0 ps have "0 \<le> st + ps" by simp
    from less.hyps [OF smaller this, of w1] obtain w' pages where
      d: "drain env w1 (Suspended c ids st ps) = Some (w', pages, None)"
      and fr: "pager w' = pager w1" "clients w' = clients w1"
      and cs: "calls w' = calls w1 @ fetches c (consecutive_chunks (nat ps) (drop (nat (st + ps)) ids))"
      and len: "length pages = length (consecutive_chunks (nat ps) (drop (nat (st + ps)) ids))"
      by blast
    have "gen_next env w (Suspended c ids s ps) = (w1, Suspended c ids st ps, Yield p)"
      by (simp only: nxt step)
    from drain_yield [OF this] d
    have unf: "drain env w (Suspended c ids s ps) = Some (w', p # pages, None)"
      by simp
    have ch: "consecutive_chunks (nat ps) (drop (nat st) ids) =
                chunk # consecutive_chunks (nat ps) (drop (nat (st + ps)) ids)"
      unfolding chunk_def by (rule chunks_at [OF st0 ps True])
    from unf fr cs len show ?thesis
      by (simp add: st_def [symmetric] ch fetches_Cons w1_def q_def)
  qed
qed


lemma paging_cases:
  assumes "paging env w c ids st ps = (w', g', r)"
  shows "pager w' = pager w \<and> clients w' = clients w \<and>
         ((r = StopIteration \<and> \<not> st < int (length ids) \<and> w' = w \<and> g' = Finished) \<or>
          (\<exists>e. r = Raise e \<and> g' = Finished \<and> st < int (length ids)) \<or>
          (\<exists>p. r = Yield p \<and> g' = Suspended c ids st ps \<and> st < int (length ids)))"
  using assms by (auto simp: paging_def Let_def split: if_splits sum.splits)

lemma drain_suspended_total:
  assumes ps: "1 \<le> ps"
  shows "0 \<le> s + ps \<Longrightarrow>
         \<exists>w' pages r. drain env w (Suspended c ids s ps) = Some (w', pages, r) \<and>
           pager w' = pager w \<and> clients w' = clients w \<and>
           ((r = None \<and>
             length pages = length (consecutive_chunks (nat ps) (drop (nat (s + ps)) ids))) \<or>
            (r \<noteq> None \<and>
             length pages < length (consecutive_chunks (nat ps) (drop (nat (s + ps)) ids))))"
proof (induction "length ids - nat (s + ps)" arbitrary: s w rule: less_induct)
  case less
  define st where "st = s + ps"
  from less.prems have st0: "0 \<le> st" by (simp add: st_def)
  obtain w1 g1 r1 where step: "paging env w c ids st ps = (w1, g1, r1)"
    by (cases "paging env w c ids st ps") auto
  then have nxt: "gen_next env w (Suspended c ids s ps) = (w1, g1, r1)"
    by (simp add: st_def)
  note pc = paging_cases [OF step]
  then have fr: "pager w1 = pager w" "clients w1 = clients w" by simp_all
  from pc consider
      (stop) "r1 = StopIteration" "\<not> st < int (length ids)"
    | (raise) e where "r1 = Raise e" "st < int (length ids)"
    | (yield) p where "r1 = Yield p" "g1 = Suspended c ids st ps" "st < int (length ids)"
    by blast
  then show ?case
  proof cases
    case stop
    from stop(2) st0 have empty: "drop (nat st) ids = []" by simp
    from nxt stop(1) have "gen_next env w (Suspended c ids s ps) = (w1, g1, StopIteration)"
      by simp
    from drain_stop [OF this]
    have "drain env w (Suspended c ids s ps) = Some (w1, [], None)" .
    with fr empty show ?thesis
      by (simp add: st_def [symmetric] chunks_Nil)
  next
    case (raise e)
    note ch = chunks_at [OF st0 ps raise(2)]
    from nxt raise(1) have "gen_next env w (Suspended c ids s ps) = (w1, g1, Raise e)"
      by simp
    from drain_raise [OF this]
    have "drain env w (Suspended c ids s ps) = Some (w1, [], Some e)" .
    with fr show ?thesis
      by (simp add: st_def [symmetric] ch)
  next
    case (yield p)
    from yield(3) st0 ps have "length ids - nat (st + ps) < length ids - nat st" by linarith
    then have smaller: "length ids - nat (st + ps) < length ids - nat (s + ps)"
      by (simp add: st_def)
    from st0 ps have "0 \<le> st + ps" by simp
    from less.hyps [OF smaller this, of w1] obtain w' pages r where
      d: "drain env w1 (Suspended c ids st ps) = Some (w', pages, r)"
      and fr': "pager w' = pager w1" "clients w' = clients w1"
      and len: "(r = None \<and>
                 length pages = length (consecutive_chunks (nat ps) (drop (nat (st + ps)) ids))) \<or>
                (r \<noteq> None \<and>
                 length pages < length (consecutive_chunks (nat ps) (drop (nat (st + ps)) ids)))"
      by blast
    from nxt yield have "gen_next env w (Suspended c ids s ps) = (w1, Suspended c ids st ps, Yield p)"
      by simp
    from drain_yield [OF this] d
    have unf: "drain env w (Suspended c ids s ps) = Some (w', p # pages, r)" by simp
    note ch = chunks_at [OF st0 ps yield(3)]
    from unf fr fr' len show ?thesis
      by (auto simp: st_def [symmetric] ch)
  qed
qed

lemma pull_suspended_ok:
  assumes ps: "1 \<le> ps" and nn: "None \<notin> set ids"
    and ok: "\<forall>h q. \<exists>p. getRecords_op env h c q = Inr p"
  shows "0 \<le> s + ps \<Longrightarrow>
         k \<le> length (consecutive_chunks (nat ps) (drop (nat (s + ps)) ids)) \<Longrightarrow>
         \<exists>w' g' pages. pull k env w (Suspended c ids s ps) = (w', g', map Yield pages) \<and>
           length pages = k \<and> pager w' = pager w \<and> clients w' = clients w \<and>
           calls w' = calls w @
             fetches c (take k (consecutive_chunks (nat ps) (drop (nat (s + ps)) ids)))"
proof (induction k arbitrary: s w)
  case 0
  show ?case by (simp add: fetches_Nil)
next
  case (Suc k)
  define st where "st = s + ps"
  from Suc.prems have st0: "0 \<le> st" by (simp add: st_def)
  from Suc.prems(2) have "consecutive_chunks (nat ps) (drop (nat st) ids) \<noteq> []"
    by (auto simp: st_def)
  then have "drop (nat st) ids \<noteq> []" by (auto simp: chunks_Nil)
  with st0 have lt: "st < int (length ids)" by simp
  define chunk where "chunk = take (nat ps) (drop (nat st) ids)"
  define q where "q = ''sys_idIN'' @ join_comma (map the chunk)"
  define w1 where "w1 = w\<lparr>calls := calls w @ [GetRecords c q]\<rparr>"
  from ok obtain p where p: "getRecords_op env (calls w) c q = Inr p" by blast
  have nnc: "None \<notin> set chunk"
    unfolding chunk_def by (rule no_None_chunk [OF nn])
  have step: "paging env w c ids st ps = (w1, Suspended c ids st ps, Yield p)"
    using paging_fetch [OF st0 ps lt nnc [unfolded chunk_def] p [unfolded q_def chunk_def]]
    by (simp add: w1_def q_def chunk_def)
  then have nxt: "gen_next env w (Suspended c ids s ps) = (w1, Suspended c ids st ps, Yield p)"
    by (simp add: st_def)
  have ch: "consecutive_chunks (nat ps) (drop (nat st) ids) =
              chunk # consecutive_chunks (nat ps) (drop (nat (st + ps)) ids)"
    unfolding chunk_def by (rule chunks_at [OF st0 ps lt])
  with Suc.prems(2) have k: "k \<le> length (consecutive_chunks (nat ps) (drop (nat (st + ps)) ids))"
    by (simp add: st_def)
  from st0 ps have "0 \<le> st + ps" by simp
  from Suc.IH [OF this k, of w1] obtain w' g' pages where
    pl: "pull k env w1 (Suspended c ids st ps) = (w', g', map Yield pages)"
    and len: "length pages = k"
    and fr: "pager w' = pager w1" "clients w' = clients w1"
    and cs: "calls w' = calls w1 @
               fetches c (take k (consecutive_chunks (nat ps) (drop (nat (st + ps)) ids)))"
    by blast
  have "pull (Suc k) env w (Suspended c ids s ps) = (w', g', map Yield (p # pages))"
    by (simp only: pull.simps nxt pl prod.case outcome.case list.map)
  with len fr cs
  have "pull (Suc k) env w (Suspended c ids s ps) = (w', g', map Yield (p # pages)) \<and>
        length (p # pages) = Suc k \<and> pager w' = pager w \<and> clients w' = clients w \<and>
        calls w' = calls w @
          fetches c (take (Suc k) (consecutive_chunks (nat ps) (drop (nat (s + ps)) ids)))"
    by (simp add: st_def [symmetric] ch fetches_Cons w1_def q_def del: pull.simps)
  then show ?case by blast
qed

lemma resolve_frame:
  assumes "resolve_sys_ids env w c qp sids = (w2, r)"
  shows "pager w2 = pager w \<and> clients w2 = clients w \<and>
         filter is_getRecords (calls w2) = filter is_getRecords (calls w)"
  using assms
  by (auto simp: resolve_sys_ids_def Let_def is_getRecords_def
           split: option.splits sum.splits list.splits if_splits)

lemma gen_next_created:
  assumes "int_of_arg a = Inr ps" and "1 \<le> ps" and "ps \<le> 250"
    and "make_client env (client_of (pager w) t) = None"
    and "resolve_sys_ids env (w\<lparr>clients := clients w @ [client_of (pager w) t]\<rparr>)
           (client_of (pager w) t) qp sids = (w2, Inr ids)"
  shows "gen_next env w (Created t qp sids a) =
           gen_next env w2 (Suspended (client_of (pager w) t) ids (- ps) ps)"
  using assms by (simp add: Let_def)

lemma drain_created:
  assumes "int_of_arg a = Inr ps" and "1 \<le> ps" and "ps \<le> 250"
    and "make_client env (client_of (pager w) t) = None"
    and "resolve_sys_ids env (w\<lparr>clients := clients w @ [client_of (pager w) t]\<rparr>)
           (client_of (pager w) t) qp sids = (w2, Inr ids)"
  shows "drain env w (Created t qp sids a) =
           drain env w2 (Suspended (client_of (pager w) t) ids (- ps) ps)"
proof -
  note eq = gen_next_created [OF assms]
  show ?thesis
    by (simp only: drain.simps [of env w "Created t qp sids a"]
          drain.simps [of env w2 "Suspended (client_of (pager w) t) ids (- ps) ps"] eq)
qed

lemma pull_created:
  assumes "int_of_arg a = Inr ps" and "1 \<le> ps" and "ps \<le> 250"
    and "make_client env (client_of (pager w) t) = None"
    and "resolve_sys_ids env (w\<lparr>clients := clients w @ [client_of (pager w) t]\<rparr>)
           (client_of (pager w) t) qp sids = (w2, Inr ids)"
  shows "pull (Suc k) env w (Created t qp sids a) =
           pull (Suc k) env w2 (Suspended (client_of (pager w) t) ids (- ps) ps)"
proof -
  note eq = gen_next_created [OF assms]
  show ?thesis
    by (simp only: pull.simps eq)
qed

lemma gen_next_unconvertible:
  "int_of_arg a = Inl e \<Longrightarrow> gen_next env w (Created t qp sids a) = (w, Finished, Raise e)"
  by simp

lemma gen_next_invalid:
  "int_of_arg a = Inr ps \<Longrightarrow> \<not> (1 \<le> ps \<and> ps \<le> 250) \<Longrightarrow>
   gen_next env w (Created t qp sids a) = (w, Finished, Raise AssertionError)"
  by simp

lemma gen_next_no_client:
  "int_of_arg a = Inr ps \<Longrightarrow> 1 \<le> ps \<Longrightarrow> ps \<le> 250 \<Longrightarrow>
   make_client env (client_of (pager w) t) = Some msg \<Longrightarrow>
   gen_next env w (Created t qp sids a) = (w, Finished, Raise (RemoteError msg))"
  by (simp add: Let_def)

lemma gen_next_unresolved:
  "int_of_arg a = Inr ps \<Longrightarrow> 1 \<le> ps \<Longrightarrow> ps \<le> 250 \<Longrightarrow>
   make_client env (client_of (pager w) t) = None \<Longrightarrow>
   resolve_sys_ids env (w\<lparr>clients := clients w @ [client_of (pager w) t]\<rparr>)
     (client_of (pager w) t) qp sids = (w2, Inl e) \<Longrightarrow>
   gen_next env w (Created t qp sids a) = (w2, Finished, Raise e)"
  by (simp add: Let_def)

lemma py_int_0: "py_int ''0'' = Inr 0"
  by (simp add: py_int_def strip_def is_space_def unsigned_def is_digit_def digit_val_def)

lemma py_int_2: "py_int ''2'' = Inr 2"
  by (simp add: py_int_def strip_def is_space_def unsigned_def is_digit_def digit_val_def)

lemma py_int_abc: "py_int ''abc'' = Inl ValueError"
  by (simp add: py_int_def strip_def is_space_def unsigned_def is_digit_def digit_val_def)

lemma trunc_below_1: "x < 1 \<Longrightarrow> trunc x < 1"
  by (simp add: trunc_def floor_less_iff ceiling_less_iff)

lemma trunc_above_250: "251 \<le> x \<Longrightarrow> 250 < trunc x"
  by (simp add: trunc_def less_floor_iff)

lemma trunc_250: "250 < x \<Longrightarrow> x < 251 \<Longrightarrow> trunc x = 250"
proof -
  assume a: "250 < x" "x < 251"
  have "\<lfloor>x\<rfloor> = 250"
    by (rule floor_unique) (use a in simp_all)
  with a show ?thesis by (simp add: trunc_def)
qed

lemma stub_set_iteration: "set_iteration (stub_env r)"
  by (simp add: set_iteration_def stub_env_def)

lemma example_client_eq:
  "client_of (pager example_world) ''incident'' = example_client"
  by (simp add: example_client_def example_world_def)

lemma resolve_no_None:
  assumes "resolve_sys_ids env w c qp sids = (w2, Inr ids)"
  shows "None \<notin> set ids"
  using assms
  by (auto simp: resolve_sys_ids_def Let_def
           split: option.splits sum.splits list.splits if_splits)

lemma filter_fetches: "filter is_getRecords (fetches c chunks) = fetches c chunks"
  by (induction chunks) (simp_all add: fetches_def is_getRecords_def)

lemma length_fetches: "length (fetches c chunks) = length chunks"
  by (simp add: fetches_def)

lemma join_comma_separated: "join_comma xs = comma_separated xs"
  by (induction xs rule: join_comma.induct) (simp_all add: comma_separated_def)

lemma chunks_map: "consecutive_chunks n (map f xs) = map (map f) (consecutive_chunks n xs)"
proof (induction n xs rule: consecutive_chunks.induct)
  case (1 n xs)
  show ?case
  proof (cases "n = 0 \<or> xs = []")
    case True
    then show ?thesis by (auto simp: consecutive_chunks.simps)
  next
    case False
    then have n: "0 < n" and xs: "xs \<noteq> []" and mxs: "map f xs \<noteq> []" by auto
    from 1 [OF False]
    have ih: "consecutive_chunks n (map f (drop n xs)) =
                map (map f) (consecutive_chunks n (drop n xs))" .
    have "consecutive_chunks n (map f xs) =
            take n (map f xs) # consecutive_chunks n (drop n (map f xs))"
      by (rule chunks_step [OF n mxs])
    also have "\<dots> = map f (take n xs) # consecutive_chunks n (map f (drop n xs))"
      by (simp only: take_map drop_map)
    also have "\<dots> = map (map f) (take n xs # consecutive_chunks n (drop n xs))"
      by (simp only: ih list.map)
    also have "take n xs # consecutive_chunks n (drop n xs) = consecutive_chunks n xs"
      by (rule chunks_step [OF n xs, symmetric])
    finally show ?thesis .
  qed
qed

lemma fetches_names:
  "fetches c (consecutive_chunks n (map Some names)) =
     map (\<lambda>chunk. GetRecords c (''sys_idIN'' @ comma_separated chunk))
       (consecutive_chunks n names)"
  by (simp add: fetches_def chunks_map join_comma_separated o_def)

lemma names_of_ids: "None \<notin> set ids \<Longrightarrow> ids = map Some (map the ids)"
  by (induction ids) auto

lemma drain_created_ok:
  assumes cv: "int_of_arg a = Inr ps" and ps: "1 \<le> ps" "ps \<le> 250"
    and mk: "make_client env (client_of (pager w) t) = None"
    and res: "resolve_sys_ids env (w\<lparr>clients := clients w @ [client_of (pager w) t]\<rparr>)
           (client_of (pager w) t) qp sids = (w2, Inr ids)"
    and ok: "\<forall>h q. \<exists>p. getRecords_op env h (client_of (pager w) t) q = Inr p"
  shows "\<exists>w' pages. drain env w (Created t qp sids a) = Some (w', pages, None) \<and>
           pager w' = pager w \<and>
           calls w' = calls w2 @ fetches (client_of (pager w) t) (consecutive_chunks (nat ps) ids) \<and>
           length pages = length (consecutive_chunks (nat ps) ids)"
proof -
  note nn = resolve_no_None [OF res]
  from resolve_frame [OF res] have fr: "pager w2 = pager w" by simp
  have z: "0 \<le> - ps + ps" by simp
  from drain_suspended_ok [OF ps(1) nn ok z, of w2] obtain w' pages where
    d: "drain env w2 (Suspended (client_of (pager w) t) ids (- ps) ps) = Some (w', pages, None)"
    and p: "pager w' = pager w2"
    and c: "calls w' = calls w2 @
              fetches (client_of (pager w) t) (consecutive_chunks (nat ps) (drop (nat (- ps + ps)) ids))"
    and l: "length pages = length (consecutive_chunks (nat ps) (drop (nat (- ps + ps)) ids))"
    by blast
  from d have "drain env w (Created t qp sids a) = Some (w', pages, None)"
    by (simp only: drain_created [OF cv ps mk res])
  moreover from p fr have "pager w' = pager w" by simp
  moreover from c have "calls w' = calls w2 @
      fetches (client_of (pager w) t) (consecutive_chunks (nat ps) ids)" by simp
  moreover from l have "length pages = length (consecutive_chunks (nat ps) ids)" by simp
  ultimately show ?thesis by blast
qed

lemma drain_created_total:
  "\<exists>w' pages r. drain env w (Created t qp sids a) = Some (w', pages, r) \<and>
     pager w' = pager w \<and>
     (\<forall>e. int_of_arg a = Inl e \<longrightarrow> w' = w \<and> pages = [] \<and> r = Some e) \<and>
     (\<forall>ps. int_of_arg a = Inr ps \<and> \<not> (1 \<le> ps \<and> ps \<le> 250) \<longrightarrow>
        w' = w \<and> pages = [] \<and> r = Some AssertionError) \<and>
     (\<forall>ps w2 ids. int_of_arg a = Inr ps \<and> 1 \<le> ps \<and> ps \<le> 250 \<and>
        make_client env (client_of (pager w) t) = None \<and>
        resolve_sys_ids env (w\<lparr>clients := clients w @ [client_of (pager w) t]\<rparr>)
          (client_of (pager w) t) qp sids = (w2, Inr ids) \<longrightarrow>
        (r = None \<and> length pages = length (consecutive_chunks (nat ps) ids)) \<or>
        (r \<noteq> None \<and> length pages < length (consecutive_chunks (nat ps) ids)))"
proof (cases "int_of_arg a")
  case (Inl e)
  have "drain env w (Created t qp sids a) = Some (w, [], Some e)"
    by (rule drain_raise) (rule gen_next_unconvertible [OF Inl])
  with Inl show ?thesis by auto
next
  case (Inr n)
  show ?thesis
  proof (cases "1 \<le> n \<and> n \<le> 250")
    case False
    have "drain env w (Created t qp sids a) = Some (w, [], Some AssertionError)"
      by (rule drain_raise) (rule gen_next_invalid [OF Inr False])
    with Inr False show ?thesis by auto
  next
    case True
    then have ps: "1 \<le> n" "n \<le> 250" by simp_all
    show ?thesis
    proof (cases "make_client env (client_of (pager w) t)")
      case (Some msg)
      have "drain env w (Created t qp sids a) = Some (w, [], Some (RemoteError msg))"
        by (rule drain_raise) (rule gen_next_no_client [OF Inr ps Some])
      with Inr True Some show ?thesis by auto
    next
      case None
      obtain w2 r where res: "resolve_sys_ids env (w\<lparr>clients := clients w @ [client_of (pager w) t]\<rparr>)
            (client_of (pager w) t) qp sids = (w2, r)"
        by (cases "resolve_sys_ids env (w\<lparr>clients := clients w @ [client_of (pager w) t]\<rparr>)
            (client_of (pager w) t) qp sids") auto
      from resolve_frame [OF res] have fr: "pager w2 = pager w" by simp
      show ?thesis
      proof (cases r)
        case (Inl e)
        have "drain env w (Created t qp sids a) = Some (w2, [], Some e)"
          by (rule drain_raise) (rule gen_next_unresolved [OF Inr ps None res [unfolded Inl]])
        with Inr True res Inl fr show ?thesis by auto
      next
        case r: (Inr ids)
        have z: "0 \<le> - n + n" by simp
        from drain_suspended_total [OF ps(1) z, of env w2 "client_of (pager w) t" ids]
        obtain w' pages r' where
          d: "drain env w2 (Suspended (client_of (pager w) t) ids (- n) n) = Some (w', pages, r')"
          and p: "pager w' = pager w2"
          and l: "(r' = None \<and>
                   length pages = length (consecutive_chunks (nat n) (drop (nat (- n + n)) ids))) \<or>
                  (r' \<noteq> None \<and>
                   length pages < length (consecutive_chunks (nat n) (drop (nat (- n + n)) ids)))"
          by blast
        from d have d': "drain env w (Created t qp sids a) = Some (w', pages, r')"
          by (simp only: drain_created [OF Inr ps None res [unfolded r]])
        from p fr have p': "pager w' = pager w" by simp
        from l have l': "(r' = None \<and> length pages = length (consecutive_chunks (nat n) ids)) \<or>
                  (r' \<noteq> None \<and> length pages < length (consecutive_chunks (nat n) ids))"
          by simp
        from d' p' l' Inr True res r show ?thesis by auto
      qed
    qed
  qed
qed

lemma gen_next_pager: "pager (fst (gen_next env w g)) = pager w"
proof (cases g)
  case (Created t qp sids a)
  show ?thesis
  proof (cases "int_of_arg a")
    case (Inl e)
    have "gen_next env w g = (w, Finished, Raise e)"
      unfolding Created by (rule gen_next_unconvertible [OF Inl])
    then show ?thesis by simp
  next
    case (Inr n)
    show ?thesis
    proof (cases "1 \<le> n \<and> n \<le> 250")
      case False
      have "gen_next env w g = (w, Finished, Raise AssertionError)"
        unfolding Created by (rule gen_next_invalid [OF Inr False])
      then show ?thesis by simp
    next
      case True
      then have ps: "1 \<le> n" "n \<le> 250" by simp_all
      show ?thesis
      proof (cases "make_client env (client_of (pager w) t)")
        case (Some msg)
        have "gen_next env w g = (w, Finished, Raise (RemoteError msg))"
          unfolding Created by (rule gen_next_no_client [OF Inr ps Some])
        then show ?thesis by simp
      next
        case None
        obtain w2 r where res: "resolve_sys_ids env (w\<lparr>clients := clients w @ [client_of (pager w) t]\<rparr>)
              (client_of (pager w) t) qp sids = (w2, r)"
          by (cases "resolve_sys_ids env (w\<lparr>clients := clients w @ [client_of (pager w) t]\<rparr>)
              (client_of (pager w) t) qp sids") auto
        from resolve_frame [OF res] have fr: "pager w2 = pager w" by simp
        show ?thesis
        proof (cases r)
          case (Inl e)
          have "gen_next env w g = (w2, Finished, Raise e)"
            unfolding Created by (rule gen_next_unresolved [OF Inr ps None res [unfolded Inl]])
          with fr show ?thesis by simp
        next
          case r: (Inr ids)
          obtain w3 g3 r3 where pg: "paging env w2 (client_of (pager w) t) ids 0 n = (w3, g3, r3)"
            by (cases "paging env w2 (client_of (pager w) t) ids 0 n") auto
          from paging_cases [OF pg] have "pager w3 = pager w2" by simp
          moreover have "gen_next env w g = paging env w2 (client_of (pager w) t) ids 0 n"
            unfolding Created
            by (simp only: gen_next_created [OF Inr ps None res [unfolded r]] gen_next.simps(2)) simp
          ultimately show ?thesis using fr pg by simp
        qed
      qed
    qed
  qed
next
  case (Suspended c ids s ps)
  obtain w3 g3 r3 where pg: "paging env w c ids (s + ps) ps = (w3, g3, r3)"
    by (cases "paging env w c ids (s + ps) ps") auto
  from paging_cases [OF pg] have "pager w3 = pager w" by simp
  with pg Suspended show ?thesis by simp
next
  case Finished
  then show ?thesis by simp
qed

lemma pull_pager: "pager (fst (pull k env w g)) = pager w"
proof (induction k arbitrary: w g)
  case 0
  show ?case by simp
next
  case (Suc k)
  obtain w1 g1 r1 where nx: "gen_next env w g = (w1, g1, r1)"
    by (cases "gen_next env w g") auto
  from gen_next_pager [of env w g] nx have fr: "pager w1 = pager w" by simp
  show ?case
  proof (cases r1)
    case (Yield p)
    obtain w2 g2 rs where pl: "pull k env w1 g1 = (w2, g2, rs)"
      by (cases "pull k env w1 g1") auto
    from Suc.IH [of w1 g1] pl have "pager w2 = pager w1" by simp
    with fr nx Yield pl show ?thesis by simp
  next
    case StopIteration
    with fr nx show ?thesis by simp
  next
    case (Raise e)
    with fr nx show ?thesis by simp
  qed
qed

lemma chunks_example: "consecutive_chunks 2 [x, y, z] = [[x, y], [z]]"
  by (simp add: consecutive_chunks.simps)

lemma chunks_single:
  assumes "xs \<noteq> []" and "length xs \<le> n"
  shows "consecutive_chunks n xs = [xs]"
proof -
  from assms have n: "0 < n" by (cases xs) auto
  from chunks_step [OF n assms(1)] assms(2) show ?thesis by (simp add: chunks_Nil)
qed

lemma stub_resolve_abc:
  "resolve_sys_ids (stub_env r) v d qp (Some [Some ''a'', Some ''b'', Some ''c'']) =
     (v, Inr [Some ''a'', Some ''b'', Some ''c''])"
  by (simp add: resolve_sys_ids_def stub_env_def)

lemma stub_services:
  "make_client (stub_env r) d = None"
  "\<forall>h q. \<exists>p. getRecords_op (stub_env r) h d q = Inr p"
  "getKeys_op (stub_env r) h d qp = Inr r"
  by (simp_all add: stub_env_def)

section \<open>The claims\<close>

text \<open>
  In what follows \<open>m\<close> is \<open>int(page_size)\<close>, the page size itself when it is an
  integer.
\<close>



text \<open>
  C2, as the code has it. Calling \<open>run_query\<close> raises nothing: a caller that never calls
  \<open>next()\<close> sees no error and nothing is done. At the first \<open>next()\<close> the page size is
  converted with \<open>int\<close>. When the converted value is outside 1..250 the \<open>assert\<close> fails
  (the specification's InvalidArgumentError) before \<open>_client\<close> and before any remote
  operation: the world is left as it was and a loop over the generator ends with that
  error and no page. That is so for every integer outside 1..250 and for every float below
  1 or from 251 on. A float strictly between 250 and 251 is converted to 250 and accepted.
  A page size that \<open>int\<close> cannot convert fails with the error of the conversion, the
  world again left as it was.
\<close>

theorem page_size_rejected:
  "(\<forall>m. int_of_arg page_size = Inr m \<and> (m < 1 \<or> 250 < m) \<longrightarrow>
      gen_next env w (run_query table query_parms sys_ids page_size) =
        (w, Finished, Raise AssertionError) \<and>
      drain env w (run_query table query_parms sys_ids page_size) =
        Some (w, [], Some AssertionError)) \<and>
   (\<forall>n. page_size = ArgInt n \<and> (n < 1 \<or> 250 < n) \<longrightarrow>
      gen_next env w (run_query table query_parms sys_ids page_size) =
        (w, Finished, Raise AssertionError)) \<and>
   (\<forall>x. page_size = ArgFloat x \<and> (x < 1 \<or> 251 \<le> x) \<longrightarrow>
      gen_next env w (run_query table query_parms sys_ids page_size) =
        (w, Finished, Raise AssertionError)) \<and>
   (\<forall>x. page_size = ArgFloat x \<and> 250 < x \<and> x < 251 \<longrightarrow> int_of_arg page_size = Inr 250) \<and>
   (\<forall>e. int_of_arg page_size = Inl e \<longrightarrow>
      gen_next env w (run_query table query_parms sys_ids page_size) = (w, Finished, Raise e) \<and>
      drain env w (run_query table query_parms sys_ids page_size) = Some (w, [], Some e)) \<and>
   pull 0 env w (run_query table query_parms sys_ids page_size) =
     (w, run_query table query_parms sys_ids page_size, [])"
proof -
  let ?g = "Created table query_parms sys_ids page_size"
  have bad: "gen_next env w ?g = (w, Finished, Raise AssertionError) \<and>
             drain env w ?g = Some (w, [], Some AssertionError)"
    if cv: "int_of_arg page_size = Inr m" and out: "m < 1 \<or> 250 < m" for m
  proof -
    from out have no: "\<not> (1 \<le> m \<and> m \<le> 250)" by auto
    note step = gen_next_invalid [OF cv no, of env w table query_parms sys_ids]
    from step drain_raise [OF step] show ?thesis by (simp only: simp_thms)
  qed
  have a: "\<forall>m. int_of_arg page_size = Inr m \<and> (m < 1 \<or> 250 < m) \<longrightarrow>
      gen_next env w ?g = (w, Finished, Raise AssertionError) \<and>
      drain env w ?g = Some (w, [], Some AssertionError)"
    using bad by blast
  have b: "\<forall>n. page_size = ArgInt n \<and> (n < 1 \<or> 250 < n) \<longrightarrow>
      gen_next env w ?g = (w, Finished, Raise AssertionError)"
  proof (intro allI impI)
    fix n assume h: "page_size = ArgInt n \<and> (n < 1 \<or> 250 < n)"
    then have "int_of_arg page_size = Inr n" by simp
    from bad [OF this] h show "gen_next env w ?g = (w, Finished, Raise AssertionError)"
      by blast
  qed
  have c: "\<forall>x. page_size = ArgFloat x \<and> (x < 1 \<or> 251 \<le> x) \<longrightarrow>
      gen_next env w ?g = (w, Finished, Raise AssertionError)"
  proof (intro allI impI)
    fix x assume h: "page_size = ArgFloat x \<and> (x < 1 \<or> 251 \<le> x)"
    then have cv: "int_of_arg page_size = Inr (trunc x)" by simp
    from h have "trunc x < 1 \<or> 250 < trunc x"
      using trunc_below_1 [of x] trunc_above_250 [of x] by blast
    from bad [OF cv this] show "gen_next env w ?g = (w, Finished, Raise AssertionError)"
      by blast
  qed
  have d: "\<forall>x. page_size = ArgFloat x \<and> 250 < x \<and> x < 251 \<longrightarrow> int_of_arg page_size = Inr 250"
    by (auto simp: trunc_250)
  have e: "\<forall>e. int_of_arg page_size = Inl e \<longrightarrow>
      gen_next env w ?g = (w, Finished, Raise e) \<and> drain env w ?g = Some (w, [], Some e)"
  proof (intro allI impI)
    fix e assume cv: "int_of_arg page_size = Inl e"
    note step = gen_next_unconvertible [OF cv, of env w table query_parms sys_ids]
    from step drain_raise [OF step]
    show "gen_next env w ?g = (w, Finished, Raise e) \<and> drain env w ?g = Some (w, [], Some e)"
      by (simp only: simp_thms)
  qed
  have f: "pull 0 env w ?g = (w, ?g, [])" by simp
  from a b c d e f show ?thesis by (simp only: run_query_def simp_thms)
qed

theorem page_size_rejected_witness:
  "gen_next (stub_env \<lparr>count = ''2'', sys_id = [''x,y'']\<rparr>) example_world
     (run_query ''incident'' None (Some [Some ''a'']) (ArgInt 251)) =
     (example_world, Finished, Raise AssertionError) \<and>
   drain (stub_env \<lparr>count = ''2'', sys_id = [''x,y'']\<rparr>) example_world
     (run_query ''incident'' None (Some [Some ''a'']) (ArgInt 251)) =
     Some (example_world, [], Some AssertionError) \<and>
   gen_next (stub_env \<lparr>count = ''2'', sys_id = [''x,y'']\<rparr>) example_world
     (run_query ''incident'' None (Some [Some ''a'']) (ArgFloat (1 / 2))) =
     (example_world, Finished, Raise AssertionError) \<and>
   int_of_arg (ArgFloat (2509 / 10)) = Inr 250 \<and>
   gen_next (stub_env \<lparr>count = ''2'', sys_id = [''x,y'']\<rparr>) example_world
     (run_query ''incident'' None (Some [Some ''a'']) (ArgStr ''abc'')) =
     (example_world, Finished, Raise ValueError)"
proof -
  let ?env = "stub_env \<lparr>count = ''2'', sys_id = [''x,y'']\<rparr>"
  let ?ids = "Some [Some ''a'']"
  note t1 = page_size_rejected [of "ArgInt 251" ?env example_world "''incident''" None ?ids]
  note t2 = page_size_rejected [of "ArgFloat (1 / 2)" ?env example_world "''incident''" None ?ids]
  note t3 = page_size_rejected [of "ArgFloat (2509 / 10)" ?env example_world "''incident''" None ?ids]
  note t4 = page_size_rejected [of "ArgStr ''abc''" ?env example_world "''incident''" None ?ids]
  have c1: "int_of_arg (ArgInt 251) = Inr 251 \<and> ((251::int) < 1 \<or> (250::int) < 251)" by simp
  have c2: "ArgFloat (1 / 2) = ArgFloat (1 / 2) \<and> ((1 / 2 :: real) < 1 \<or> (251::real) \<le> 1 / 2)"
    by simp
  have c3: "ArgFloat (2509 / 10) = ArgFloat (2509 / 10) \<and> (250::real) < 2509 / 10 \<and>
            (2509 / 10 :: real) < 251"
    by simp
  have c4: "int_of_arg (ArgStr ''abc'') = Inl ValueError" by (simp add: py_int_abc)
  note r1 = t1 [THEN conjunct1, rule_format, OF c1]
  note r2 = t2 [THEN conjunct2, THEN conjunct2, THEN conjunct1, rule_format, OF c2]
  note r3 = t3 [THEN conjunct2, THEN conjunct2, THEN conjunct2, THEN conjunct1, rule_format, OF c3]
  note r4 = t4 [THEN conjunct2, THEN conjunct2, THEN conjunct2, THEN conjunct2, THEN conjunct1,
      rule_format, OF c4]
  from r1 r2 r3 r4 show ?thesis by (simp only: simp_thms)
qed

theorem page_size_truncated_counterexample:
  "\<not> (1 \<le> (2509 / 10 :: real) \<and> (2509 / 10 :: real) \<le> 250) \<and>
   gen_next (stub_env \<lparr>count = ''2'', sys_id = [''x,y'']\<rparr>) example_world
     (run_query ''incident'' None (Some [Some ''a'']) (ArgFloat (2509 / 10))) =
     (example_world\<lparr>clients := [example_client],
        calls := [GetRecords example_client ''sys_idINa'']\<rparr>,
      Suspended example_client [Some ''a''] 0 250, Yield ''sys_idINa'')"
proof -
  have cv: "int_of_arg (ArgFloat (2509 / 10)) = Inr 250"
    by (simp add: trunc_250)
  have "gen_next (stub_env \<lparr>count = ''2'', sys_id = [''x,y'']\<rparr>) example_world
     (Created ''incident'' None (Some [Some ''a'']) (ArgFloat (2509 / 10))) =
     (example_world\<lparr>clients := [example_client],
        calls := [GetRecords example_client ''sys_idINa'']\<rparr>,
      Suspended example_client [Some ''a''] 0 250, Yield ''sys_idINa'')"
    unfolding gen_next.simps cv
    by (simp add: Let_def stub_env_def resolve_sys_ids_def paging_def py_slice_def
          slice_index_def py_join_def example_client_eq)
       (simp add: example_world_def)
  then show ?thesis by (simp add: run_query_def del: gen_next.simps)
qed

text \<open>
  C3. With \<open>sys_ids\<close> omitted and a \<open>getKeys\<close> response whose count is zero, the loop
  over the generator ends normally with no page; the only remote operation called is
  that one \<open>getKeys\<close>, and no \<open>getRecords\<close>.
\<close>

theorem zero_count_no_pages:
  assumes "int_of_arg page_size = Inr m" and "1 \<le> m" and "m \<le> 250"
    and "make_client env (client_of (pager w) table) = None"
    and "getKeys_op env (calls w) (client_of (pager w) table) query_parms = Inr response"
    and "py_int (count response) = Inr 0"
  shows "drain env w (run_query table (Some query_parms) None page_size) =
           Some (w\<lparr>clients := clients w @ [client_of (pager w) table],
                   calls := calls w @ [GetKeys (client_of (pager w) table) query_parms]\<rparr>,
                 [], None)"
proof -
  have "gen_next env w (Created table (Some query_parms) None page_size) =
          (w\<lparr>clients := clients w @ [client_of (pager w) table],
             calls := calls w @ [GetKeys (client_of (pager w) table) query_parms]\<rparr>,
           Finished, StopIteration)"
    using assms by (simp add: Let_def resolve_sys_ids_def paging_def)
  from drain_stop [OF this] show ?thesis by (simp only: run_query_def)
qed

theorem zero_count_no_pages_witness:
  "drain (stub_env \<lparr>count = ''0'', sys_id = []\<rparr>) example_world
     (run_query ''incident'' (Some [(''active'', PyStr ''true'')]) None (ArgInt 250)) =
     Some (example_world\<lparr>clients := [example_client],
             calls := [GetKeys example_client [(''active'', PyStr ''true'')]]\<rparr>, [], None)"
  using zero_count_no_pages [of "ArgInt 250" 250 "stub_env \<lparr>count = ''0'', sys_id = []\<rparr>"
      example_world "''incident''" "[(''active'', PyStr ''true'')]" "\<lparr>count = ''0'', sys_id = []\<rparr>"]
  by (simp add: stub_env_def py_int_0 example_client_eq) (simp add: example_world_def)

text \<open>
  C4. When the caller supplies \<open>sys_ids\<close>, the list paged through holds exactly the
  elements of the collection other than \<open>None\<close>, each once, whatever the order or the
  repetitions of the input; \<open>query_parms\<close> is not looked at and no remote operation is
  called to obtain it. For \<open>["a", "b", None, "a"]\<close> the pool is \<open>{"a", "b"}\<close>. The
  first \<open>next()\<close> enters the paging loop with that list.
\<close>

theorem supplied_ids_pool:
  assumes "set_iteration env"
  shows "\<exists>ids. resolve_sys_ids env w c query_parms (Some xs) = (w, Inr ids) \<and>
           set ids = set xs - {None} \<and> distinct ids \<and>
           resolve_sys_ids env w c other_parms (Some xs) = (w, Inr ids) \<and>
           (\<forall>ys. set ys = set xs \<longrightarrow>
              (\<exists>ids'. resolve_sys_ids env w c query_parms (Some ys) = (w, Inr ids') \<and>
                 set ids' = set ids)) \<and>
           (xs = [Some ''a'', Some ''b'', None, Some ''a''] \<longrightarrow> set ids = {Some ''a'', Some ''b''}) \<and>
           (int_of_arg page_size = Inr m \<and> 1 \<le> m \<and> m \<le> 250 \<and>
            make_client env (client_of (pager w) table) = None \<longrightarrow>
              gen_next env w (run_query table query_parms (Some xs) page_size) =
                paging env (w\<lparr>clients := clients w @ [client_of (pager w) table]\<rparr>)
                  (client_of (pager w) table) ids 0 m)"
proof -
  define pool where "pool zs = filter (\<lambda>x. x \<noteq> None) (set_iter env zs)" for zs
  have res: "resolve_sys_ids env v d qp (Some zs) = (v, Inr (pool zs))" for v d qp zs
    by (simp add: resolve_sys_ids_def pool_def)
  from assms have it: "distinct (set_iter env zs)" "set (set_iter env zs) = set zs" for zs
    by (simp_all add: set_iteration_def)
  have pset: "set (pool zs) = set zs - {None}" for zs
    by (auto simp: pool_def it)
  have pdist: "distinct (pool zs)" for zs
    by (simp add: pool_def it)
  show ?thesis
  proof (intro exI [of _ "pool xs"] conjI)
    show "resolve_sys_ids env w c query_parms (Some xs) = (w, Inr (pool xs))" by (rule res)
    show "set (pool xs) = set xs - {None}" by (rule pset)
    show "distinct (pool xs)" by (rule pdist)
    show "resolve_sys_ids env w c other_parms (Some xs) = (w, Inr (pool xs))" by (rule res)
    show "\<forall>ys. set ys = set xs \<longrightarrow>
      (\<exists>ids'. resolve_sys_ids env w c query_parms (Some ys) = (w, Inr ids') \<and>
         set ids' = set (pool xs))"
    proof (intro allI impI)
      fix ys :: "sys_id list"
      assume "set ys = set xs"
      then have "set (pool ys) = set (pool xs)" by (simp only: pset)
      with res [of w c query_parms ys]
      show "\<exists>ids'. resolve_sys_ids env w c query_parms (Some ys) = (w, Inr ids') \<and>
         set ids' = set (pool xs)"
        by (intro exI [of _ "pool ys"] conjI)
    qed
    show "xs = [Some ''a'', Some ''b'', None, Some ''a''] \<longrightarrow>
      set (pool xs) = {Some ''a'', Some ''b''}"
    proof
      assume xs: "xs = [Some ''a'', Some ''b'', None, Some ''a'']"
      have "set xs - {None} = {Some ''a'', Some ''b''}"
        unfolding xs by (simp add: insert_Diff_if insert_commute)
      then show "set (pool xs) = {Some ''a'', Some ''b''}" by (simp only: pset)
    qed
    show "int_of_arg page_size = Inr m \<and> 1 \<le> m \<and> m \<le> 250 \<and>
      make_client env (client_of (pager w) table) = None \<longrightarrow>
        gen_next env w (run_query table query_parms (Some xs) page_size) =
          paging env (w\<lparr>clients := clients w @ [client_of (pager w) table]\<rparr>)
            (client_of (pager w) table) (pool xs) 0 m"
      by (simp add: run_query_def Let_def res)
  qed
qed

theorem supplied_ids_pool_witness:
  "\<exists>ids. resolve_sys_ids (stub_env \<lparr>count = ''0'', sys_id = []\<rparr>) example_world example_client
            (Some [(''active'', PyStr ''true'')]) (Some [Some ''a'', Some ''b'', None, Some ''a'']) =
            (example_world, Inr ids) \<and>
          set ids = {Some ''a'', Some ''b''} \<and> distinct ids \<and>
          gen_next (stub_env \<lparr>count = ''0'', sys_id = []\<rparr>) example_world
            (run_query ''incident'' (Some [(''active'', PyStr ''true'')])
               (Some [Some ''a'', Some ''b'', None, Some ''a'']) (ArgInt 250)) =
            paging (stub_env \<lparr>count = ''0'', sys_id = []\<rparr>)
              (example_world\<lparr>clients := [example_client]\<rparr>) example_client ids 0 250"
proof -
  let ?env = "stub_env \<lparr>count = ''0'', sys_id = []\<rparr>"
  let ?xs = "[Some ''a'', Some ''b'', None, Some ''a'']"
  let ?qp = "Some [(''active'', PyStr ''true'')]"
  have mk: "make_client ?env (client_of (pager example_world) ''incident'') = None"
    by (simp add: stub_env_def)
  have cl: "clients example_world = []" by (simp add: example_world_def)
  from supplied_ids_pool [OF stub_set_iteration, of "\<lparr>count = ''0'', sys_id = []\<rparr>" example_world
      example_client ?qp ?xs None "ArgInt 250" 250 "''incident''"]
  obtain ids where
    r: "resolve_sys_ids ?env example_world example_client ?qp (Some ?xs) = (example_world, Inr ids)"
    and d: "distinct ids"
    and s: "?xs = ?xs \<longrightarrow> set ids = {Some ''a'', Some ''b''}"
    and g: "int_of_arg (ArgInt 250) = Inr 250 \<and> 1 \<le> (250::int) \<and> (250::int) \<le> 250 \<and>
            make_client ?env (client_of (pager example_world) ''incident'') = None \<longrightarrow>
            gen_next ?env example_world (run_query ''incident'' ?qp (Some ?xs) (ArgInt 250)) =
              paging ?env (example_world\<lparr>clients := clients example_world @
                   [client_of (pager example_world) ''incident'']\<rparr>)
                (client_of (pager example_world) ''incident'') ids 0 250"
    by (elim exE conjE)
  from s have s': "set ids = {Some ''a'', Some ''b''}" by (rule mp) (rule refl)
  from g mk have "gen_next ?env example_world (run_query ''incident'' ?qp (Some ?xs) (ArgInt 250)) =
              paging ?env (example_world\<lparr>clients := clients example_world @
                   [client_of (pager example_world) ''incident'']\<rparr>)
                (client_of (pager example_world) ''incident'') ids 0 250"
    by (intro mp [OF g] conjI) simp_all
  then have g': "gen_next ?env example_world (run_query ''incident'' ?qp (Some ?xs) (ArgInt 250)) =
              paging ?env (example_world\<lparr>clients := [example_client]\<rparr>) example_client ids 0 250"
    by (simp only: example_client_eq cl append_Nil)
  from r s' d g' show ?thesis by (intro exI [of _ ids] conjI)
qed

text \<open>
  C5. Under the conditions of C1, each \<open>getRecords\<close> call carries the string
  \<open>sys_idIN\<close> followed by the sys_ids of its chunk separated by commas, nothing escaped:
  for three sys_ids \<open>a\<close>, \<open>b\<close>, \<open>c\<close> in one chunk it is \<open>sys_idIN\<close>, \<open>a\<close>, a comma,
  \<open>b\<close>, a comma, \<open>c\<close>, whatever characters they hold. With \<open>sys_ids\<close> omitted, a
  \<open>getKeys\<close> response \<open>{"count": "2", "sys_id": ["x,y"]}\<close> and a page size of at least
  2, there is one \<open>getRecords\<close> call, with \<open>sys_idINx,y\<close>.
\<close>

theorem records_filter_expression:
  assumes cv: "int_of_arg page_size = Inr m"
    and ps: "1 \<le> m" "m \<le> 250"
    and mk: "make_client env (client_of (pager w) table) = None"
    and res: "resolve_sys_ids env (w\<lparr>clients := clients w @ [client_of (pager w) table]\<rparr>)
                (client_of (pager w) table) query_parms sys_ids = (w2, Inr ids)"
    and ok: "\<forall>h q. \<exists>p. getRecords_op env h (client_of (pager w) table) q = Inr p"
  shows "\<exists>w' pages.
           drain env w (run_query table query_parms sys_ids page_size) = Some (w', pages, None) \<and>
           (\<exists>names. ids = map Some names \<and>
              calls w' = calls w2 @
                map (\<lambda>chunk. GetRecords (client_of (pager w) table)
                       (''sys_idIN'' @ comma_separated chunk))
                  (consecutive_chunks (nat m) names)) \<and>
           (\<forall>a b c. ids = [Some a, Some b, Some c] \<and> 3 \<le> m \<longrightarrow>
              calls w' = calls w2 @
                [GetRecords (client_of (pager w) table)
                   (''sys_idIN'' @ a @ '','' @ b @ '','' @ c)]) \<and>
           (\<forall>parms. sys_ids = None \<and> query_parms = Some parms \<and> 2 \<le> m \<and>
              getKeys_op env (calls w) (client_of (pager w) table) parms =
                Inr \<lparr>count = ''2'', sys_id = [''x,y'']\<rparr> \<longrightarrow>
              calls w' = calls w @ [GetKeys (client_of (pager w) table) parms,
                                   GetRecords (client_of (pager w) table) ''sys_idINx,y''] \<and>
              length pages = 1)"
proof -
  let ?c = "client_of (pager w) table"
  from drain_created_ok [OF cv ps mk res ok] obtain w' pages where
    d: "drain env w (Created table query_parms sys_ids page_size) = Some (w', pages, None)"
    and c: "calls w' = calls w2 @ fetches ?c (consecutive_chunks (nat m) ids)"
    and l: "length pages = length (consecutive_chunks (nat m) ids)"
    by blast
  note nn = resolve_no_None [OF res]
  define names where "names = map the ids"
  from names_of_ids [OF nn] have idn: "ids = map Some names" by (simp only: names_def)
  from c have "calls w' = calls w2 @
      map (\<lambda>chunk. GetRecords ?c (''sys_idIN'' @ comma_separated chunk))
        (consecutive_chunks (nat m) names)"
    by (simp only: idn fetches_names)
  with idn have gen: "\<exists>names. ids = map Some names \<and>
      calls w' = calls w2 @
        map (\<lambda>chunk. GetRecords ?c (''sys_idIN'' @ comma_separated chunk))
          (consecutive_chunks (nat m) names)"
    by blast
  have three: "\<forall>a b c. ids = [Some a, Some b, Some c] \<and> 3 \<le> m \<longrightarrow>
      calls w' = calls w2 @ [GetRecords ?c (''sys_idIN'' @ a @ '','' @ b @ '','' @ c)]"
  proof (intro allI impI)
    fix a b c'
    assume h: "ids = [Some a, Some b, Some c'] \<and> 3 \<le> m"
    then have ids: "ids = [Some a, Some b, Some c']" and m3: "3 \<le> m" by simp_all
    from m3 have len: "length [Some a, Some b, Some c'] \<le> nat m" by simp
    have ne: "[Some a, Some b, Some c'] \<noteq> []" by simp
    note ch = chunks_single [OF ne len]
    from c show "calls w' = calls w2 @
        [GetRecords ?c (''sys_idIN'' @ a @ '','' @ b @ '','' @ c')]"
      by (simp add: ids ch fetches_def)
  qed
  have ex: "\<forall>parms. sys_ids = None \<and> query_parms = Some parms \<and> 2 \<le> m \<and>
              getKeys_op env (calls w) ?c parms = Inr \<lparr>count = ''2'', sys_id = [''x,y'']\<rparr> \<longrightarrow>
              calls w' = calls w @ [GetKeys ?c parms, GetRecords ?c ''sys_idINx,y''] \<and>
              length pages = 1"
  proof (intro allI impI)
    fix parms
    assume h: "sys_ids = None \<and> query_parms = Some parms \<and> 2 \<le> m \<and>
              getKeys_op env (calls w) ?c parms = Inr \<lparr>count = ''2'', sys_id = [''x,y'']\<rparr>"
    have sp: "py_split ''x,y'' = [''x'', ''y'']" by (simp add: py_split_def)
    from res h have r: "w2 = w\<lparr>clients := clients w @ [?c], calls := calls w @ [GetKeys ?c parms]\<rparr>"
      and ids: "ids = [Some ''x'', Some ''y'']"
      by (simp_all add: resolve_sys_ids_def Let_def py_int_2 sp)
    from h have p2: "2 \<le> m" by blast
    from p2 have len: "length [Some ''x'', Some ''y''] \<le> nat m" by simp
    have ne: "[Some ''x'', Some ''y''] \<noteq> []" by simp
    note ch = chunks_single [OF ne len]
    from c l show "calls w' = calls w @ [GetKeys ?c parms, GetRecords ?c ''sys_idINx,y''] \<and>
              length pages = 1"
      by (simp add: ids ch r fetches_def)
  qed
  from d have d': "drain env w (run_query table query_parms sys_ids page_size) =
      Some (w', pages, None)" by (simp only: run_query_def)
  from d' gen three ex show ?thesis by blast
qed

theorem records_filter_expression_witness:
  "(\<exists>w' pages.
     drain (stub_env \<lparr>count = ''2'', sys_id = [''x,y'']\<rparr>) example_world
       (run_query ''incident'' (Some []) None (ArgInt 250)) = Some (w', pages, None) \<and>
     calls w' = [GetKeys example_client [], GetRecords example_client ''sys_idINx,y''] \<and>
     length pages = 1) \<and>
   (\<exists>w' pages.
     drain (stub_env \<lparr>count = ''2'', sys_id = [''x,y'']\<rparr>) example_world
       (run_query ''incident'' None (Some [Some ''a'', Some ''b'', Some ''c'']) (ArgInt 250)) =
       Some (w', pages, None) \<and>
     calls w' = [GetRecords example_client ''sys_idINa,b,c''])"
proof -
  let ?r = "\<lparr>count = ''2'', sys_id = [''x,y'']\<rparr>"
  let ?env = "stub_env ?r"
  let ?c = "client_of (pager example_world) ''incident''"
  let ?w1 = "example_world\<lparr>clients := clients example_world @ [?c]\<rparr>"
  have cv: "int_of_arg (ArgInt 250) = Inr 250" by simp
  have ps: "(1::int) \<le> 250" "(250::int) \<le> 250" by simp_all
  have sp: "py_split ''x,y'' = [''x'', ''y'']" by (simp add: py_split_def)
  have res: "resolve_sys_ids ?env ?w1 ?c (Some []) None =
       (?w1\<lparr>calls := calls example_world @ [GetKeys ?c []]\<rparr>, Inr [Some ''x'', Some ''y''])"
    by (simp add: resolve_sys_ids_def Let_def stub_services(3) py_int_2 sp)
  from records_filter_expression [OF cv ps stub_services(1) res stub_services(2)]
  obtain w' pages where
    d: "drain ?env example_world (run_query ''incident'' (Some []) None (ArgInt 250)) =
          Some (w', pages, None)"
    and ex: "\<forall>parms. (None :: sys_id list option) = None \<and> Some [] = Some parms \<and> (2::int) \<le> 250 \<and>
              getKeys_op ?env (calls example_world) ?c parms = Inr ?r \<longrightarrow>
              calls w' = calls example_world @ [GetKeys ?c parms, GetRecords ?c ''sys_idINx,y''] \<and>
              length pages = 1"
    by blast
  from ex [rule_format, of "[]"] stub_services(3) [of ?r "calls example_world" ?c "[]"]
  have "calls w' = calls example_world @ [GetKeys ?c [], GetRecords ?c ''sys_idINx,y''] \<and>
              length pages = 1"
    by simp
  then have "calls w' = [GetKeys example_client [], GetRecords example_client ''sys_idINx,y''] \<and>
              length pages = 1"
    by (simp add: example_client_eq) (simp add: example_world_def)
  with d have first: "\<exists>w' pages.
     drain ?env example_world (run_query ''incident'' (Some []) None (ArgInt 250)) =
       Some (w', pages, None) \<and>
     calls w' = [GetKeys example_client [], GetRecords example_client ''sys_idINx,y''] \<and>
     length pages = 1"
    by blast
  from records_filter_expression [OF cv ps stub_services(1) stub_resolve_abc stub_services(2),
      of ?r example_world "''incident''" None]
  obtain v' qages where
    d2: "drain ?env example_world
           (run_query ''incident'' None (Some [Some ''a'', Some ''b'', Some ''c'']) (ArgInt 250)) =
          Some (v', qages, None)"
    and th: "\<forall>a b c. [Some ''a'', Some ''b'', Some ''c''] = [Some a, Some b, Some c] \<and> (3::int) \<le> 250 \<longrightarrow>
              calls v' = calls ?w1 @ [GetRecords ?c (''sys_idIN'' @ a @ '','' @ b @ '','' @ c)]"
    by blast
  from th [rule_format, of "''a''" "''b''" "''c''"]
  have "calls v' = calls ?w1 @ [GetRecords ?c ''sys_idINa,b,c'']" by simp
  then have "calls v' = [GetRecords example_client ''sys_idINa,b,c'']"
    by (simp add: example_client_eq) (simp add: example_world_def)
  with d2 have second: "\<exists>w' pages.
     drain ?env example_world
       (run_query ''incident'' None (Some [Some ''a'', Some ''b'', Some ''c'']) (ArgInt 250)) =
       Some (w', pages, None) \<and>
     calls w' = [GetRecords example_client ''sys_idINa,b,c'']"
    by blast
  from first second show ?thesis by (rule conjI)
qed

text \<open>
  C6, as the code has it. A caller-supplied collection is turned into a list without
  duplicates and without \<open>None\<close>. The list obtained from a \<open>getKeys\<close> response is the
  returned string split at its commas, as it is: it never holds \<open>None\<close>, but the code
  removes no duplicate from it (nor an empty field).
\<close>

theorem paging_list_invariant:
  "(set_iteration env \<longrightarrow>
      (\<exists>ids. resolve_sys_ids env w c query_parms (Some xs) = (w, Inr ids) \<and>
         distinct ids \<and> None \<notin> set ids)) \<and>
   (resolve_sys_ids env w c query_parms None = (w2, Inr ids2) \<longrightarrow> None \<notin> set ids2) \<and>
   (getKeys_op env (calls w) c parms = Inr response \<and> py_int (count response) = Inr n \<and>
    n \<noteq> 0 \<and> sys_id response = s # rest \<longrightarrow>
      resolve_sys_ids env w c (Some parms) None =
        (w\<lparr>calls := calls w @ [GetKeys c parms]\<rparr>, Inr (map Some (py_split s))))"
proof (intro conjI impI)
  assume "set_iteration env"
  then have "distinct (set_iter env xs)" by (simp add: set_iteration_def)
  then show "\<exists>ids. resolve_sys_ids env w c query_parms (Some xs) = (w, Inr ids) \<and>
         distinct ids \<and> None \<notin> set ids"
    by (simp add: resolve_sys_ids_def)
next
  assume "resolve_sys_ids env w c query_parms None = (w2, Inr ids2)"
  then show "None \<notin> set ids2"
    by (auto simp: resolve_sys_ids_def Let_def
             split: option.splits sum.splits list.splits if_splits)
next
  assume "getKeys_op env (calls w) c parms = Inr response \<and> py_int (count response) = Inr n \<and>
    n \<noteq> 0 \<and> sys_id response = s # rest"
  then show "resolve_sys_ids env w c (Some parms) None =
        (w\<lparr>calls := calls w @ [GetKeys c parms]\<rparr>, Inr (map Some (py_split s)))"
    by (simp add: resolve_sys_ids_def Let_def)
qed

theorem paging_list_invariant_witness:
  "(\<exists>ids. resolve_sys_ids (stub_env \<lparr>count = ''2'', sys_id = [''x,y'']\<rparr>) example_world
             example_client None (Some [Some ''a'', None, Some ''a'']) = (example_world, Inr ids) \<and>
          distinct ids \<and> None \<notin> set ids) \<and>
   resolve_sys_ids (stub_env \<lparr>count = ''2'', sys_id = [''x,y'']\<rparr>) example_world
     example_client (Some []) None =
     (example_world\<lparr>calls := [GetKeys example_client []]\<rparr>, Inr [Some ''x'', Some ''y''])"
proof -
  note th = paging_list_invariant [of "stub_env \<lparr>count = ''2'', sys_id = [''x,y'']\<rparr>"
      example_world example_client None "[Some ''a'', None, Some ''a'']"
      example_world "[]" "[]" "\<lparr>count = ''2'', sys_id = [''x,y'']\<rparr>" 2 "''x,y''" "[]"]
  have k: "getKeys_op (stub_env \<lparr>count = ''2'', sys_id = [''x,y'']\<rparr>) (calls example_world)
             example_client [] = Inr \<lparr>count = ''2'', sys_id = [''x,y'']\<rparr>"
    by (simp add: stub_env_def)
  have sp: "py_split ''x,y'' = [''x'', ''y'']" by (simp add: py_split_def)
  have cs: "calls example_world = []" by (simp add: example_world_def)
  from th stub_set_iteration k py_int_2 show ?thesis
    by (simp add: sp cs)
qed

theorem paging_list_duplicates_counterexample:
  "gen_next (stub_env \<lparr>count = ''2'', sys_id = [''a,a'']\<rparr>) example_world
     (run_query ''incident'' (Some []) None (ArgInt 250)) =
     (example_world\<lparr>clients := [example_client],
        calls := [GetKeys example_client [], GetRecords example_client ''sys_idINa,a'']\<rparr>,
      Suspended example_client [Some ''a'', Some ''a''] 0 250, Yield ''sys_idINa,a'') \<and>
   \<not> distinct [Some ''a'', Some ''a'']"
  by (simp add: run_query_def Let_def stub_env_def resolve_sys_ids_def py_int_2 py_split_def
        paging_def py_slice_def slice_index_def py_join_def example_client_eq)
     (simp add: example_world_def)

text \<open>
  C7. The generator fetches a page only when asked for it. Under the conditions of C1, a
  caller that calls \<open>next()\<close> \<open>k\<close> times, \<open>k\<close> not above the number of chunks, gets \<open>k\<close>
  pages, and exactly \<open>k\<close> \<open>getRecords\<close> calls have been made by then: one for a caller
  that takes the first page only, none for a caller that never calls \<open>next()\<close>.
\<close>

theorem no_prefetch:
  assumes cv: "int_of_arg page_size = Inr m"
    and ps: "1 \<le> m" "m \<le> 250"
    and mk: "make_client env (client_of (pager w) table) = None"
    and res: "resolve_sys_ids env (w\<lparr>clients := clients w @ [client_of (pager w) table]\<rparr>)
                (client_of (pager w) table) query_parms sys_ids = (w2, Inr ids)"
    and ok: "\<forall>h q. \<exists>p. getRecords_op env h (client_of (pager w) table) q = Inr p"
    and k: "k \<le> length (consecutive_chunks (nat m) ids)"
  shows "\<exists>w' g' pages.
           pull k env w (run_query table query_parms sys_ids page_size) = (w', g', map Yield pages) \<and>
           length pages = k \<and>
           length (filter is_getRecords (calls w')) = length (filter is_getRecords (calls w)) + k"
proof (cases k)
  case 0
  have "pull 0 env w (run_query table query_parms sys_ids page_size) =
          (w, run_query table query_parms sys_ids page_size, map Yield [])"
    by simp
  with 0 show ?thesis by (intro exI [of _ w] exI [of _ "[]"] exI) simp
next
  case (Suc j)
  let ?c = "client_of (pager w) table"
  note nn = resolve_no_None [OF res]
  have z: "0 \<le> - m + m" by simp
  from k have k': "k \<le> length (consecutive_chunks (nat m)
      (drop (nat (- m + m)) ids))" by simp
  from pull_suspended_ok [OF ps(1) nn ok z k', of w2] obtain w' g' pages where
    p: "pull k env w2 (Suspended ?c ids (- m) m) = (w', g', map Yield pages)"
    and l: "length pages = k"
    and c: "calls w' = calls w2 @ fetches ?c (take k (consecutive_chunks (nat m)
        (drop (nat (- m + m)) ids)))"
    by blast
  from p have p': "pull k env w (run_query table query_parms sys_ids page_size) =
      (w', g', map Yield pages)"
    by (simp only: run_query_def Suc pull_created [OF cv ps mk res])
  from resolve_frame [OF res]
  have "filter is_getRecords (calls w2) = filter is_getRecords (calls w)" by simp
  with c k have "length (filter is_getRecords (calls w')) =
      length (filter is_getRecords (calls w)) + k"
    by (simp add: filter_fetches length_fetches)
  with p' l show ?thesis by blast
qed

theorem no_prefetch_witness:
  "\<exists>w' g' pages.
     pull 1 (stub_env \<lparr>count = ''0'', sys_id = []\<rparr>) example_world
       (run_query ''incident'' None (Some [Some ''a'', Some ''b'', Some ''c'']) (ArgInt 2)) =
       (w', g', map Yield pages) \<and>
     length pages = 1 \<and> length (filter is_getRecords (calls w')) = 1"
proof -
  have cv: "int_of_arg (ArgInt 2) = Inr 2" by simp
  have two: "(1::int) \<le> 2" "(2::int) \<le> 250" by simp_all
  have k: "1 \<le> length (consecutive_chunks (nat 2) [Some ''a'', Some ''b'', Some ''c''])"
    by (simp add: chunks_example)
  from no_prefetch [OF cv two stub_services(1) stub_resolve_abc stub_services(2) k,
      of "\<lparr>count = ''0'', sys_id = []\<rparr>" example_world "''incident''" None]
  show ?thesis by (simp add: example_world_def)
qed

text \<open>
  C8, as the code has it. A loop over the generator ends, whatever the arguments. With
  \<open>m = int(page_size)\<close> in 1..250, the client built and \<open>n\<close> sys_ids obtained, the loop
  ends normally with exactly \<open>n\<close> divided by \<open>m\<close>, rounded up, pages, or is ended by an
  error after fewer; it ends normally when every \<open>getRecords\<close> call answers. When \<open>m\<close>
  is outside 1..250 the \<open>assert\<close> fails and there is no page. The loop entered on its
  own ends for every page size of at least 1.
\<close>

theorem paging_terminates:
  "\<exists>w' pages r.
     drain env w (run_query table query_parms sys_ids page_size) = Some (w', pages, r) \<and>
     (\<forall>m. int_of_arg page_size = Inr m \<and> (m < 1 \<or> 250 < m) \<longrightarrow>
        pages = [] \<and> r = Some AssertionError) \<and>
     (\<forall>m w2 ids. int_of_arg page_size = Inr m \<and> 1 \<le> m \<and> m \<le> 250 \<and>
        make_client env (client_of (pager w) table) = None \<and>
        resolve_sys_ids env (w\<lparr>clients := clients w @ [client_of (pager w) table]\<rparr>)
          (client_of (pager w) table) query_parms sys_ids = (w2, Inr ids) \<longrightarrow>
        ((r = None \<and> length pages = (length ids + nat m - 1) div nat m) \<or>
         (r \<noteq> None \<and> length pages < (length ids + nat m - 1) div nat m)) \<and>
        ((\<forall>h q. \<exists>p. getRecords_op env h (client_of (pager w) table) q = Inr p) \<longrightarrow>
           r = None \<and> length pages = (length ids + nat m - 1) div nat m)) \<and>
     (\<forall>v c ids s ps. 1 \<le> ps \<and> 0 \<le> s + ps \<longrightarrow>
        (\<exists>v' pages' r'. drain env v (Suspended c ids s ps) = Some (v', pages', r') \<and>
           length pages' \<le> (length (drop (nat (s + ps)) ids) + nat ps - 1) div nat ps))"
proof -
  let ?c = "client_of (pager w) table"
  from drain_created_total [of env w table query_parms sys_ids page_size]
  obtain w' pages r where
    d: "drain env w (Created table query_parms sys_ids page_size) = Some (w', pages, r)"
    and a: "\<forall>ps. int_of_arg page_size = Inr ps \<and> \<not> (1 \<le> ps \<and> ps \<le> 250) \<longrightarrow>
        w' = w \<and> pages = [] \<and> r = Some AssertionError"
    and b: "\<forall>ps w2 ids. int_of_arg page_size = Inr ps \<and> 1 \<le> ps \<and> ps \<le> 250 \<and>
        make_client env ?c = None \<and>
        resolve_sys_ids env (w\<lparr>clients := clients w @ [?c]\<rparr>) ?c query_parms sys_ids = (w2, Inr ids) \<longrightarrow>
        (r = None \<and> length pages = length (consecutive_chunks (nat ps) ids)) \<or>
        (r \<noteq> None \<and> length pages < length (consecutive_chunks (nat ps) ids))"
    by (elim exE conjE)
  have out: "\<forall>m. int_of_arg page_size = Inr m \<and> (m < 1 \<or> 250 < m) \<longrightarrow>
        pages = [] \<and> r = Some AssertionError"
  proof (intro allI impI)
    fix m assume h: "int_of_arg page_size = Inr m \<and> (m < 1 \<or> 250 < m)"
    then have "int_of_arg page_size = Inr m \<and> \<not> (1 \<le> m \<and> m \<le> 250)" by auto
    with a show "pages = [] \<and> r = Some AssertionError" by blast
  qed
  have main: "\<forall>m w2 ids. int_of_arg page_size = Inr m \<and> 1 \<le> m \<and> m \<le> 250 \<and>
        make_client env ?c = None \<and>
        resolve_sys_ids env (w\<lparr>clients := clients w @ [?c]\<rparr>) ?c query_parms sys_ids = (w2, Inr ids) \<longrightarrow>
        ((r = None \<and> length pages = (length ids + nat m - 1) div nat m) \<or>
         (r \<noteq> None \<and> length pages < (length ids + nat m - 1) div nat m)) \<and>
        ((\<forall>h q. \<exists>p. getRecords_op env h ?c q = Inr p) \<longrightarrow>
           r = None \<and> length pages = (length ids + nat m - 1) div nat m)"
  proof (intro allI impI)
    fix m w2 ids
    assume h: "int_of_arg page_size = Inr m \<and> 1 \<le> m \<and> m \<le> 250 \<and> make_client env ?c = None \<and>
        resolve_sys_ids env (w\<lparr>clients := clients w @ [?c]\<rparr>) ?c query_parms sys_ids = (w2, Inr ids)"
    then have cv: "int_of_arg page_size = Inr m" and ps: "1 \<le> m" "m \<le> 250"
      and mk: "make_client env ?c = None"
      and res: "resolve_sys_ids env (w\<lparr>clients := clients w @ [?c]\<rparr>) ?c query_parms sys_ids =
        (w2, Inr ids)"
      by simp_all
    from ps have n: "0 < nat m" by simp
    note len = length_chunks [OF n, of ids]
    from b [rule_format, OF h]
    have alt: "(r = None \<and> length pages = (length ids + nat m - 1) div nat m) \<or>
         (r \<noteq> None \<and> length pages < (length ids + nat m - 1) div nat m)"
      by (simp only: len)
    have "(\<forall>h q. \<exists>p. getRecords_op env h ?c q = Inr p) \<longrightarrow>
           r = None \<and> length pages = (length ids + nat m - 1) div nat m"
    proof
      assume ok: "\<forall>h q. \<exists>p. getRecords_op env h ?c q = Inr p"
      from drain_created_ok [OF cv ps mk res ok] obtain w'' pages'' where
        "drain env w (Created table query_parms sys_ids page_size) = Some (w'', pages'', None)"
        and "length pages'' = length (consecutive_chunks (nat m) ids)"
        by blast
      with d len show "r = None \<and> length pages = (length ids + nat m - 1) div nat m"
        by simp
    qed
    with alt show "((r = None \<and> length pages = (length ids + nat m - 1) div nat m) \<or>
         (r \<noteq> None \<and> length pages < (length ids + nat m - 1) div nat m)) \<and>
        ((\<forall>h q. \<exists>p. getRecords_op env h ?c q = Inr p) \<longrightarrow>
           r = None \<and> length pages = (length ids + nat m - 1) div nat m)"
      by (rule conjI)
  qed
  have alone: "\<forall>v c ids s ps. 1 \<le> ps \<and> 0 \<le> s + ps \<longrightarrow>
        (\<exists>v' pages' r'. drain env v (Suspended c ids s ps) = Some (v', pages', r') \<and>
           length pages' \<le> (length (drop (nat (s + ps)) ids) + nat ps - 1) div nat ps)"
  proof (intro allI impI)
    fix v c ids and s ps :: int
    assume h: "1 \<le> ps \<and> 0 \<le> s + ps"
    then have ps: "1 \<le> ps" and z: "0 \<le> s + ps" by simp_all
    from ps have n: "0 < nat ps" by simp
    from drain_suspended_total [OF ps z, of env v c ids] obtain v' pages' r' where
      dd: "drain env v (Suspended c ids s ps) = Some (v', pages', r')"
      and "(r' = None \<and>
             length pages' = length (consecutive_chunks (nat ps) (drop (nat (s + ps)) ids))) \<or>
           (r' \<noteq> None \<and>
             length pages' < length (consecutive_chunks (nat ps) (drop (nat (s + ps)) ids)))"
      by blast
    then have "length pages' \<le> length (consecutive_chunks (nat ps) (drop (nat (s + ps)) ids))"
      by auto
    then have "length pages' \<le> (length (drop (nat (s + ps)) ids) + nat ps - 1) div nat ps"
      by (simp only: length_chunks [OF n])
    with dd show "\<exists>v' pages' r'. drain env v (Suspended c ids s ps) = Some (v', pages', r') \<and>
           length pages' \<le> (length (drop (nat (s + ps)) ids) + nat ps - 1) div nat ps"
      by blast
  qed
  from d have "drain env w (run_query table query_parms sys_ids page_size) = Some (w', pages, r)"
    by (simp only: run_query_def)
  with out main alone show ?thesis by blast
qed

theorem paging_terminates_witness:
  "(\<exists>w' pages r.
     drain (stub_env \<lparr>count = ''0'', sys_id = []\<rparr>) example_world
       (run_query ''incident'' None (Some [Some ''a'', Some ''b'', Some ''c'']) (ArgInt 2)) =
       Some (w', pages, r) \<and>
     r = None \<and> length pages = 2) \<and>
   (\<exists>w' pages r.
     drain (stub_env \<lparr>count = ''0'', sys_id = []\<rparr>) example_world
       (run_query ''incident'' None (Some [Some ''a'', Some ''b'', Some ''c'']) (ArgInt 251)) =
       Some (w', pages, r) \<and>
     pages = [] \<and> r = Some AssertionError)"
proof -
  let ?env = "stub_env \<lparr>count = ''0'', sys_id = []\<rparr>"
  let ?ids = "[Some ''a'', Some ''b'', Some ''c'']"
  let ?c = "client_of (pager example_world) ''incident''"
  from paging_terminates [of ?env example_world "''incident''" None "Some ?ids" "ArgInt 2"]
  obtain w' pages r where
    d: "drain ?env example_world (run_query ''incident'' None (Some ?ids) (ArgInt 2)) =
          Some (w', pages, r)"
    and b: "\<forall>m w2 ids. int_of_arg (ArgInt 2) = Inr m \<and> 1 \<le> m \<and> m \<le> 250 \<and>
        make_client ?env ?c = None \<and>
        resolve_sys_ids ?env (example_world\<lparr>clients := clients example_world @ [?c]\<rparr>) ?c None
          (Some ?ids) = (w2, Inr ids) \<longrightarrow>
        ((r = None \<and> length pages = (length ids + nat m - 1) div nat m) \<or>
         (r \<noteq> None \<and> length pages < (length ids + nat m - 1) div nat m)) \<and>
        ((\<forall>h q. \<exists>p. getRecords_op ?env h ?c q = Inr p) \<longrightarrow>
           r = None \<and> length pages = (length ids + nat m - 1) div nat m)"
    by (elim exE conjE)
  let ?w1 = "example_world\<lparr>clients := clients example_world @ [?c]\<rparr>"
  have pre: "int_of_arg (ArgInt 2) = Inr 2 \<and> (1::int) \<le> 2 \<and> (2::int) \<le> 250 \<and>
      make_client ?env ?c = None \<and>
      resolve_sys_ids ?env ?w1 ?c None (Some ?ids) = (?w1, Inr ?ids)"
    by (simp add: stub_services(1) stub_resolve_abc)
  note x = b [rule_format, OF pre]
  from x [THEN conjunct2, THEN mp, OF stub_services(2)]
  have "r = None \<and> length pages = (length ?ids + nat 2 - 1) div nat 2" .
  then have "r = None \<and> length pages = 2" by simp
  with d have first: "\<exists>w' pages r.
     drain ?env example_world (run_query ''incident'' None (Some ?ids) (ArgInt 2)) =
       Some (w', pages, r) \<and> r = None \<and> length pages = 2"
    by blast
  from paging_terminates [of ?env example_world "''incident''" None "Some ?ids" "ArgInt 251"]
  obtain v' qages q where
    d2: "drain ?env example_world (run_query ''incident'' None (Some ?ids) (ArgInt 251)) =
          Some (v', qages, q)"
    and o: "\<forall>m. int_of_arg (ArgInt 251) = Inr m \<and> (m < 1 \<or> 250 < m) \<longrightarrow>
        qages = [] \<and> q = Some AssertionError"
    by (elim exE conjE)
  have pre2: "int_of_arg (ArgInt 251) = Inr 251 \<and> ((251::int) < 1 \<or> (250::int) < 251)" by simp
  from o [rule_format, OF pre2] d2 have second: "\<exists>w' pages r.
     drain ?env example_world (run_query ''incident'' None (Some ?ids) (ArgInt 251)) =
       Some (w', pages, r) \<and> pages = [] \<and> r = Some AssertionError"
    by blast
  from first second show ?thesis by (rule conjI)
qed

theorem page_count_counterexample:
  "drain (stub_env \<lparr>count = ''0'', sys_id = []\<rparr>) example_world
     (run_query ''incident'' None (Some [Some ''a'']) (ArgInt 251)) =
     Some (example_world, [], Some AssertionError) \<and>
   length ([] :: string list) \<noteq> (length [Some ''a''] + nat 251 - 1) div nat 251 \<and>
   drain (down_env \<lparr>count = ''0'', sys_id = []\<rparr>) example_world
     (run_query ''incident'' None (Some [Some ''a'']) (ArgInt 1)) =
     Some (example_world\<lparr>clients := [example_client],
             calls := [GetRecords example_client ''sys_idINa'']\<rparr>, [], Some (RemoteError ''503'')) \<and>
   length ([] :: string list) \<noteq> (length [Some ''a''] + nat 1 - 1) div nat 1 \<and>
   \<not> (\<exists>w' pages r.
        drain (stub_env \<lparr>count = ''0'', sys_id = []\<rparr>) example_world
          (run_query ''incident'' None (Some [Some ''a'', Some ''b'', Some ''c''])
             (ArgFloat (3 / 2))) = Some (w', pages, r) \<and>
        int (length pages) = \<lceil>3 / (3 / 2 :: real)\<rceil>)"
proof -
  let ?r = "\<lparr>count = ''0'', sys_id = []\<rparr>"
  have cv: "int_of_arg (ArgInt 251) = Inr 251" by simp
  have bad: "\<not> (1 \<le> (251::int) \<and> (251::int) \<le> 250)" by simp
  have one: "drain (stub_env ?r) example_world
          (Created ''incident'' None (Some [Some ''a'']) (ArgInt 251)) =
          Some (example_world, [], Some AssertionError)"
    by (rule drain_raise) (rule gen_next_invalid [OF cv bad])
  have "gen_next (down_env ?r) example_world
          (Created ''incident'' None (Some [Some ''a'']) (ArgInt 1)) =
          (example_world\<lparr>clients := [example_client],
             calls := [GetRecords example_client ''sys_idINa'']\<rparr>, Finished,
           Raise (RemoteError ''503''))"
    by (simp add: Let_def down_env_def stub_env_def resolve_sys_ids_def paging_def py_slice_def
          slice_index_def py_join_def example_client_eq)
       (simp add: example_world_def)
  from drain_raise [OF this]
  have two: "drain (down_env ?r) example_world
          (Created ''incident'' None (Some [Some ''a'']) (ArgInt 1)) =
          Some (example_world\<lparr>clients := [example_client],
             calls := [GetRecords example_client ''sys_idINa'']\<rparr>, [], Some (RemoteError ''503''))" .
  have cv3: "int_of_arg (ArgFloat (3 / 2)) = Inr 1" by (simp add: trunc_def)
  have ps3: "(1::int) \<le> 1" "(1::int) \<le> 250" by simp_all
  from drain_created_ok [OF cv3 ps3 stub_services(1) stub_resolve_abc stub_services(2),
      of ?r example_world "''incident''" None]
  obtain w3 pages3 where
    d3: "drain (stub_env ?r) example_world
           (Created ''incident'' None (Some [Some ''a'', Some ''b'', Some ''c'']) (ArgFloat (3 / 2))) =
           Some (w3, pages3, None)"
    and l3: "length pages3 = length (consecutive_chunks (nat 1) [Some ''a'', Some ''b'', Some ''c''])"
    by blast
  have "length (consecutive_chunks (nat 1) [Some ''a'', Some ''b'', Some ''c'']) = 3"
  proof -
    have "0 < nat 1" by simp
    from length_chunks [OF this, of "[Some ''a'', Some ''b'', Some ''c'']"] show ?thesis by simp
  qed
  with l3 have len3: "length pages3 = 3" by (simp only:)
  have ceil: "\<lceil>3 / (3 / 2 :: real)\<rceil> = 2" by simp
  have three: "\<not> (\<exists>w' pages r.
        drain (stub_env ?r) example_world
          (Created ''incident'' None (Some [Some ''a'', Some ''b'', Some ''c''])
             (ArgFloat (3 / 2))) = Some (w', pages, r) \<and>
        int (length pages) = \<lceil>3 / (3 / 2 :: real)\<rceil>)"
    using d3 len3 by (simp only: ceil) auto
  have n1: "length ([] :: string list) \<noteq> (length [Some ''a''] + nat 251 - 1) div nat 251"
    by simp
  have n2: "length ([] :: string list) \<noteq> (length [Some ''a''] + nat 1 - 1) div nat 1"
    by simp
  from one n1 two n2 three show ?thesis by (simp only: run_query_def simp_thms)
qed

text \<open>
  C9. Nothing \<open>run_query\<close> does changes the \<open>SNSoap\<close> object: its \<open>instance\<close>,
  \<open>session\<close> and \<open>transport\<close> are after any \<open>next()\<close>, after any number of them and
  after a whole loop what they were before, for a generator in any state. The generator
  holds the state of its run; a new call of \<open>run_query\<close> starts from its arguments
  alone.
\<close>

theorem pager_unchanged:
  "pager (fst (gen_next env w g)) = pager w \<and>
   pager (fst (pull k env w g)) = pager w \<and>
   (\<exists>w' pages r.
      drain env w (run_query table query_parms sys_ids page_size) = Some (w', pages, r) \<and>
      pager w' = pager w \<and>
      instance (pager w') = instance (pager w) \<and>
      session (pager w') = session (pager w) \<and>
      transport (pager w') = transport (pager w)) \<and>
   run_query table query_parms sys_ids page_size = Created table query_parms sys_ids page_size"
proof -
  from drain_created_total [of env w table query_parms sys_ids page_size]
  obtain w' pages r where
    "drain env w (Created table query_parms sys_ids page_size) = Some (w', pages, r)"
    and "pager w' = pager w"
    by (elim exE conjE)
  then have "\<exists>w' pages r.
      drain env w (run_query table query_parms sys_ids page_size) = Some (w', pages, r) \<and>
      pager w' = pager w \<and>
      instance (pager w') = instance (pager w) \<and>
      session (pager w') = session (pager w) \<and>
      transport (pager w') = transport (pager w)"
    by (simp add: run_query_def)
  with gen_next_pager [of env w g] pull_pager [of k env w g] show ?thesis
    by (simp add: run_query_def)
qed

theorem pager_unchanged_witness:
  "pager (fst (pull 2 (stub_env \<lparr>count = ''0'', sys_id = []\<rparr>) example_world
      (run_query ''incident'' None (Some [Some ''a'', Some ''b'', Some ''c'']) (ArgInt 2)))) =
     SNSoap_init ''dev'' ''admin'' ''secret''"
proof -
  note th = pager_unchanged [of "stub_env \<lparr>count = ''0'', sys_id = []\<rparr>" example_world
      "run_query ''incident'' None (Some [Some ''a'', Some ''b'', Some ''c'']) (ArgInt 2)" 2
      "''incident''" None "Some [Some ''a'', Some ''b'', Some ''c'']" "ArgInt 2"]
  have "pager example_world = SNSoap_init ''dev'' ''admin'' ''secret''"
    by (simp add: example_world_def example_pager_def)
  with th [THEN conjunct2, THEN conjunct1] show ?thesis by (simp only:)
qed

text \<open>
  C10. With \<open>query_parms\<close> and \<open>sys_ids\<close> both omitted, a page size that \<open>int\<close> takes
  into 1..250 (the default 250 is one) and a client that can be built, the first
  \<open>next()\<close> raises the \<open>TypeError\<close> of \<open>getKeys(**None)\<close>, which is neither the assertion
  failure nor an error of the remote side; the client has been built, and neither
  \<open>getKeys\<close> nor \<open>getRecords\<close> is called: the generator is finished. Whatever the page
  size, the first \<open>next()\<close> of such a call raises and calls no remote operation.
\<close>

theorem both_omitted_raises:
  "(int_of_arg page_size = Inr m \<and> 1 \<le> m \<and> m \<le> 250 \<and>
    make_client env (client_of (pager w) table) = None \<longrightarrow>
      gen_next env w (run_query table None None page_size) =
        (w\<lparr>clients := clients w @ [client_of (pager w) table]\<rparr>, Finished, Raise TypeError) \<and>
      drain env w (run_query table None None page_size) =
        Some (w\<lparr>clients := clients w @ [client_of (pager w) table]\<rparr>, [], Some TypeError) \<and>
      calls (w\<lparr>clients := clients w @ [client_of (pager w) table]\<rparr>) = calls w \<and>
      TypeError \<noteq> AssertionError \<and> (\<forall>msg. TypeError \<noteq> RemoteError msg)) \<and>
   (make_client env (client_of (pager w) table) = None \<longrightarrow>
      gen_next env w (run_query table None None (ArgInt 250)) =
        (w\<lparr>clients := clients w @ [client_of (pager w) table]\<rparr>, Finished, Raise TypeError)) \<and>
   (\<exists>w' e. gen_next env w (run_query table None None page_size) = (w', Finished, Raise e) \<and>
      pager w' = pager w \<and> calls w' = calls w)"
proof (intro conjI impI)
  assume a: "int_of_arg page_size = Inr m \<and> 1 \<le> m \<and> m \<le> 250 \<and>
    make_client env (client_of (pager w) table) = None"
  then have step: "gen_next env w (Created table None None page_size) =
      (w\<lparr>clients := clients w @ [client_of (pager w) table]\<rparr>, Finished, Raise TypeError)"
    by (simp add: Let_def resolve_sys_ids_def)
  from step show "gen_next env w (run_query table None None page_size) =
      (w\<lparr>clients := clients w @ [client_of (pager w) table]\<rparr>, Finished, Raise TypeError)"
    by (simp only: run_query_def)
  from drain_raise [OF step] show "drain env w (run_query table None None page_size) =
      Some (w\<lparr>clients := clients w @ [client_of (pager w) table]\<rparr>, [], Some TypeError)"
    by (simp only: run_query_def)
next
  assume "make_client env (client_of (pager w) table) = None"
  then show "gen_next env w (run_query table None None (ArgInt 250)) =
      (w\<lparr>clients := clients w @ [client_of (pager w) table]\<rparr>, Finished, Raise TypeError)"
    by (simp add: run_query_def Let_def resolve_sys_ids_def)
next
  show "\<exists>w' e. gen_next env w (run_query table None None page_size) = (w', Finished, Raise e) \<and>
      pager w' = pager w \<and> calls w' = calls w"
  proof (cases "int_of_arg page_size")
    case (Inl e)
    then show ?thesis by (simp add: run_query_def)
  next
    case (Inr n)
    then show ?thesis
      by (cases "make_client env (client_of (pager w) table)")
         (simp_all add: run_query_def Let_def resolve_sys_ids_def)
  qed
qed simp_all

theorem both_omitted_raises_witness:
  "gen_next (stub_env \<lparr>count = ''0'', sys_id = []\<rparr>) example_world
     (run_query ''incident'' None None (ArgInt 250)) =
     (example_world\<lparr>clients := [example_client]\<rparr>, Finished, Raise TypeError) \<and>
   drain (stub_env \<lparr>count = ''0'', sys_id = []\<rparr>) example_world
     (run_query ''incident'' None None (ArgInt 250)) =
     Some (example_world\<lparr>clients := [example_client]\<rparr>, [], Some TypeError)"
proof -
  have pre: "int_of_arg (ArgInt 250) = Inr 250 \<and> (1::int) \<le> 250 \<and> (250::int) \<le> 250 \<and>
      make_client (stub_env \<lparr>count = ''0'', sys_id = []\<rparr>)
        (client_of (pager example_world) ''incident'') = None"
    by (simp add: stub_env_def)
  have cl: "clients example_world = []" by (simp add: example_world_def)
  note th = both_omitted_raises [of "ArgInt 250" 250 "stub_env \<lparr>count = ''0'', sys_id = []\<rparr>"
      example_world "''incident''"]
  from th [THEN conjunct1, THEN mp, OF pre]
  show ?thesis by (simp add: example_client_eq cl)
qed

end
